theory Spec2Isabelle
  imports Main "HOL-Library.AList"
begin

section \<open>Values, errors and promises\<close>

text \<open>
  The library (lib/ZKGroupMembership.js) is a thin asynchronous layer over a ZooKeeper
  client. Its behaviour is decided by the order in which the JavaScript event loop runs
  the client's callbacks and the timers, so the embedding is a state machine: a call
  creates a promise record, and later events (a callback invocation, a timer firing)
  are delivered to it one at a time.

  An error value is either an object built by this file with \<open>new Error(message)\<close>, or a
  failure object that comes from outside (the client, a built-in).
\<close>

datatype error = Error string | External string

datatype val =
    Undefined
  | Null
  | Num int
  | Str string
  | Buffer string
  | Arr "val list"
  | Obj "(string \<times> val) list"

type_synonym doc = "(string \<times> val) list"

text \<open>
  A promise settles once: \<open>resolve\<close> and \<open>reject\<close> on a promise that is no longer
  pending do nothing.
\<close>

datatype 'a promise = Pending | Fulfilled 'a | Rejected error

definition resolve :: "'a \<Rightarrow> 'a promise \<Rightarrow> 'a promise" where
  "resolve v p = (case p of Pending \<Rightarrow> Fulfilled v | _ \<Rightarrow> p)"

definition reject :: "error \<Rightarrow> 'a promise \<Rightarrow> 'a promise" where
  "reject e p = (case p of Pending \<Rightarrow> Rejected e | _ \<Rightarrow> p)"

text \<open>
  The arguments of one invocation of a node-style callback \<open>(err, ...values)\<close>.
  \<open>err = None\<close> stands for a falsy first argument.
\<close>

record cb_args =
  err :: "error option"
  vals :: "val list"

definition first_value :: "val list \<Rightarrow> val" where
  "first_value vs = (case vs of [] \<Rightarrow> Undefined | v # _ \<Rightarrow> v)"

text \<open>
  \<open>resolverAsCallback(resolve, reject, array)\<close>: the callback it returns, as its effect
  on the promise whose \<open>resolve\<close>/\<open>reject\<close> it was given.
\<close>

definition resolverAsCallback :: "bool \<Rightarrow> cb_args \<Rightarrow> val promise \<Rightarrow> val promise" where
  "resolverAsCallback array a p =
     (if array then
        (case err a of
           Some e \<Rightarrow> reject e p
         | None \<Rightarrow> resolve (Arr (vals a)) p)
      else
        (case err a of
           Some e \<Rightarrow> reject e p
         | None \<Rightarrow> resolve (first_value (vals a)) p))"

section \<open>The timeout-racing executor\<close>

text \<open>
  The state of one \<open>timedPromiseByCallback(executor, timeout, array)\<close>:
  \<^item> \<open>inner\<close> is the promise built by \<open>new Promise(...)\<close> around the executor;
  \<^item> \<open>timer\<close> is the delay given to \<open>setTimeout\<close> by \<open>delay(timeout)\<close>, when
    \<open>withTimeout\<close> took the racing branch, and \<open>fired\<close> says whether that timer ran;
  \<^item> \<open>raced\<close> is the promise of \<open>Promise.race\<close>;
  \<^item> \<open>created\<close> is the clock (ms) at the call.
  \<open>withTimeout\<close> returns \<open>promise\<close> itself when the timeout is undefined, so the
  result is then the inner promise.
\<close>

record timed =
  as_array :: bool
  created :: nat
  inner :: "val promise"
  timer :: "nat option"
  fired :: bool
  raced :: "val promise"

definition result :: "timed \<Rightarrow> val promise" where
  "result tp = (case timer tp of None \<Rightarrow> inner tp | Some d \<Rightarrow> raced tp)"

text \<open>
  \<open>Promise.race([promise, delay(timeout).then(...)])\<close> subscribes to both promises; the
  race takes the outcome of whichever settles first. A promise that is already settled
  when the race subscribes is taken at once (its reaction job runs before any timer).
\<close>

definition withTimeout :: "bool \<Rightarrow> nat \<Rightarrow> val promise \<Rightarrow> nat option \<Rightarrow> timed" where
  "withTimeout array now p timeout =
     (case timeout of
        None \<Rightarrow> \<lparr>as_array = array, created = now, inner = p, timer = None,
                  fired = False, raced = p\<rparr>
      | Some d \<Rightarrow> \<lparr>as_array = array, created = now, inner = p, timer = Some d,
                    fired = False, raced = p\<rparr>)"

text \<open>
  \<open>timedPromiseByCallback\<close>: the executor is run inside \<open>new Promise\<close>, before
  \<open>withTimeout\<close> is entered. \<open>sync\<close> lists the invocations of the callback that the
  executor makes before it returns (none, for a client that answers from the network).
\<close>

definition timedPromiseByCallback :: "nat \<Rightarrow> cb_args list \<Rightarrow> nat option \<Rightarrow> bool \<Rightarrow> timed" where
  "timedPromiseByCallback now sync timeout array =
     withTimeout array now (foldl (\<lambda>p a. resolverAsCallback array a p) Pending sync) timeout"

text \<open>
  What the event loop can deliver to a timed promise afterwards: an invocation of the
  callback handed to the client, or the run of the timer armed by \<open>delay\<close>.

  \<open>delay(timeout)\<close> hands the deadline to \<open>setTimeout\<close> as it is. Node's
  \<open>setTimeout(f, d)\<close> runs \<open>f\<close> once, and a delay above \<open>2^31 - 1\<close> ms is run as a
  delay of 1 ms. \<open>timer_delay d\<close> is the time that has to pass before the timer of the
  deadline \<open>d\<close> can run; a \<open>TimerFired\<close> before that is not an event of the
  platform and is ignored. (Node runs a delay of 0 as 1 ms as well. The model lets the
  timer of a zero deadline run from 0 ms on: that admits every schedule Node has for it.)
\<close>

definition TIMEOUT_MAX :: nat where
  "TIMEOUT_MAX = 2147483647"

definition timer_delay :: "nat \<Rightarrow> nat" where
  "timer_delay d = (if TIMEOUT_MAX < d then 1 else d)"

datatype tevent = Callback cb_args | TimerFired

definition deliver :: "nat \<Rightarrow> tevent \<Rightarrow> timed \<Rightarrow> timed" where
  "deliver now ev tp =
     (case ev of
        Callback a \<Rightarrow>
          (let p = resolverAsCallback (as_array tp) a (inner tp)
           in tp\<lparr>inner := p, raced := (case raced tp of Pending \<Rightarrow> p | r \<Rightarrow> r)\<rparr>)
      | TimerFired \<Rightarrow>
          (case timer tp of
             None \<Rightarrow> tp
           | Some d \<Rightarrow>
               if fired tp \<or> now < created tp + timer_delay d then tp
               else tp\<lparr>fired := True, raced := reject (Error ''Timeout'') (raced tp)\<rparr>))"

text \<open>
  A schedule is the list of events in the order the event loop runs them, each with the
  time that passed since the previous one.
\<close>

fun run_timed :: "nat \<Rightarrow> timed \<Rightarrow> (nat \<times> tevent) list \<Rightarrow> timed" where
  "run_timed now tp [] = tp"
| "run_timed now tp ((dt, ev) # es) = run_timed (now + dt) (deliver (now + dt) ev tp) es"

text \<open>The operation's own outcome: the verdict of the first invocation of its callback.\<close>

definition verdict :: "bool \<Rightarrow> cb_args \<Rightarrow> val promise" where
  "verdict array a = resolverAsCallback array a Pending"

fun callbacks_of :: "(nat \<times> tevent) list \<Rightarrow> cb_args list" where
  "callbacks_of [] = []"
| "callbacks_of ((dt, Callback a) # es) = a # callbacks_of es"
| "callbacks_of ((dt, TimerFired) # es) = callbacks_of es"

definition own_outcome :: "bool \<Rightarrow> cb_args list \<Rightarrow> val promise" where
  "own_outcome array cbs = (case cbs of [] \<Rightarrow> Pending | a # _ \<Rightarrow> verdict array a)"

fun elapsed :: "(nat \<times> tevent) list \<Rightarrow> nat" where
  "elapsed [] = 0"
| "elapsed ((dt, ev) # es) = dt + elapsed es"

text \<open>
  The timer is armed and has not rejected the race, and the callback has not been
  invoked: the state in which the race is still open.
\<close>

definition waiting :: "nat \<Rightarrow> timed \<Rightarrow> bool" where
  "waiting d tp \<longleftrightarrow> timer tp = Some d \<and> inner tp = Pending \<and>
     (if fired tp then raced tp = Rejected (Error ''Timeout'') else raced tp = Pending)"

section \<open>The platform and the client\<close>

text \<open>
  Built-ins of JavaScript that the library calls are parameters of the model:
  \<open>String(v)\<close> for a value that is not a string, \<open>JSON.stringify\<close> on a document,
  and \<open>JSON.parse(buffer.toString())\<close>, whose exception (if any) is a value.
  \<open>uuid()\<close> and \<open>Date.now()\<close> are inputs of the call that reads them.
\<close>

record platform =
  js_String :: "val \<Rightarrow> string"
  JSON_stringify :: "doc \<Rightarrow> string"
  JSON_parse_buffer :: "val \<Rightarrow> error + val"

text \<open>\<open>s.includes(p)\<close> and \<open>xs.join(sep)\<close> on strings.\<close>

fun js_includes :: "string \<Rightarrow> string \<Rightarrow> bool" where
  "js_includes [] p = (p = [])"
| "js_includes (c # cs) p = (take (length p) (c # cs) = p \<or> js_includes cs p)"

fun js_join :: "string \<Rightarrow> string list \<Rightarrow> string" where
  "js_join sep [] = []"
| "js_join sep [x] = x"
| "js_join sep (x # y # ys) = x @ sep @ js_join sep (y # ys)"

definition ZK_CREATE_MODE_EPHEMERAL :: nat where
  "ZK_CREATE_MODE_EPHEMERAL = 1"

text \<open>
  Function objects are identified by the index at which they were created. The two
  closures the class creates are the relay of \<open>startMonitor\<close> (the arrow function
  stored in \<open>_membersChangedListener\<close>) and its listener for the client's
  \<open>state\<close> event.
\<close>

datatype closure = Relay | StateListener

text \<open>
  The calls the library makes on the client, as logged in order. The watcher argument
  of \<open>getChildren\<close> is a function reference or null; \<open>create\<close> is always given a
  null ACL and \<open>getData\<close> a null watcher.
\<close>

datatype client_call =
    Mkdirp string
  | GetChildren string "nat option"
  | Create string string nat
  | GetData string
  | On string nat

section \<open>The group membership manager\<close>

text \<open>
  Each API call that returns a promise adds one entry to \<open>ops\<close>: either a timed
  promise around a client call, with the kind of \<open>.then\<close> continuation the method
  chains on it, or a promise made by \<open>Promise.reject\<close>.
\<close>

datatype op_kind =
    SetupOp
  | GetMembersOp
  | RegisterOp val nat
  | MemberDataOp val

datatype operation = Call op_kind timed | Refused error

text \<open>What the promise returned to the caller is fulfilled with.\<close>

datatype resolved =
    This
  | Value val
  | Member val nat
  | MemberData val val val

datatype emitted = Members val | ErrorEvent error

text \<open>
  The fields of a \<open>ZKGroupMembership\<close> instance, together with what the model has to
  remember of its surroundings:
  \<^item> \<open>closures\<close>: the function objects created so far by the instance;
  \<^item> \<open>calls\<close>: the log of calls on the client;
  \<^item> \<open>ops\<close>: the promises handed out, in order of creation;
  \<^item> \<open>subscribed\<close>: the promises on which the relay chained its
    \<open>then(emit members, emit error)\<close>;
  \<^item> \<open>watches\<close>, \<open>state_listeners\<close>: the client's registries (see below);
  \<^item> \<open>emitted\<close>: the events emitted by the instance;
  \<^item> \<open>heap\<close>: the objects passed as \<open>data\<close>, by reference;
  \<^item> \<open>clock\<close>: the current time in ms, as \<open>Date.now()\<close> reads it.
\<close>

record world =
  groupPath :: string
  timeout :: "nat option"
  setupTimeout :: "nat option"
  membersChangedListener :: "nat option"
  closures :: "closure list"
  calls :: "client_call list"
  ops :: "operation list"
  subscribed :: "nat list"
  watches :: "nat list"
  state_listeners :: "nat list"
  emitted :: "emitted list"
  heap :: "doc list"
  clock :: nat

text \<open>
  \<open>constructor(client, groupPath = '/groups/default', conf = {})\<close>. An omitted
  \<open>groupPath\<close> is \<open>None\<close>.
\<close>

definition constructor :: "string option \<Rightarrow> nat option \<Rightarrow> nat option \<Rightarrow> world" where
  "constructor gp conf_timeout conf_setupTimeout =
     \<lparr>groupPath = (case gp of None \<Rightarrow> ''/groups/default'' | Some p \<Rightarrow> p),
      timeout = conf_timeout,
      setupTimeout = conf_setupTimeout,
      membersChangedListener = None,
      closures = [], calls = [], ops = [], subscribed = [], watches = [],
      state_listeners = [], emitted = [], heap = [], clock = 0\<rparr>"

text \<open>
  Modelled from the spec: the client is an external collaborator (node-zookeeper-client),
  not part of this repository. Its contract is taken from section 6 of the
  specification: a watch callback given to \<open>getChildren\<close> is invoked at most once, on
  the next structural change under the path, and is not re-armed by the client. A call
  on the client is logged; \<open>getChildren\<close> with a watcher also adds it to the
  client's one-shot registry. The client answers from its own event handlers, not
  inside the call; an answer inside the call would leave the promise as the event
  \<open>Respond\<close> does when it follows the call at once.
\<close>

definition client_call :: "client_call \<Rightarrow> world \<Rightarrow> world" where
  "client_call c w =
     (let w' = w\<lparr>calls := calls w @ [c]\<rparr>
      in case c of
           GetChildren p (Some f) \<Rightarrow> w'\<lparr>watches := watches w' @ [f]\<rparr>
         | On ev f \<Rightarrow> w'\<lparr>state_listeners := state_listeners w' @ [f]\<rparr>
         | _ \<Rightarrow> w')"

definition new_op :: "operation \<Rightarrow> world \<Rightarrow> world" where
  "new_op x w = w\<lparr>ops := ops w @ [x]\<rparr>"

text \<open>\<open>setup()\<close> (the name \<open>setup\<close> is reserved in Isabelle).\<close>

definition setup_group :: "world \<Rightarrow> world" where
  "setup_group w =
     new_op (Call SetupOp (timedPromiseByCallback (clock w) [] (setupTimeout w) False))
       (client_call (Mkdirp (groupPath w)) w)"

definition getMembers :: "world \<Rightarrow> world" where
  "getMembers w =
     new_op (Call GetMembersOp (timedPromiseByCallback (clock w) [] (timeout w) False))
       (client_call (GetChildren (groupPath w) (membersChangedListener w)) w)"

text \<open>
  The body of the arrow function stored in \<open>_membersChangedListener\<close>:
  \<open>this.getMembers().then(nodeList => this.emit('members', nodeList),
  err => this.emit('error', err))\<close>. The promise it subscribes to is the one just
  created by \<open>getMembers\<close>.
\<close>

definition relay :: "world \<Rightarrow> world" where
  "relay w = (let w' = getMembers w in w'\<lparr>subscribed := subscribed w' @ [length (ops w)]\<rparr>)"

definition startMonitor :: "world \<Rightarrow> world" where
  "startMonitor w =
     (case membersChangedListener w of
        Some f \<Rightarrow> w
      | None \<Rightarrow>
          (let r = length (closures w);
               w1 = w\<lparr>closures := closures w @ [Relay], membersChangedListener := Some r\<rparr>;
               w2 = relay w1;
               l = length (closures w2);
               w3 = w2\<lparr>closures := closures w2 @ [StateListener]\<rparr>
           in client_call (On ''state'' l) w3))"

text \<open>\<open>typeof id !== 'string' ? String(id) : id\<close> (\<open>mid\<close> is the member id).\<close>

definition coerce_id :: "platform \<Rightarrow> val \<Rightarrow> string" where
  "coerce_id pf mid = (case mid of Str s \<Rightarrow> s | _ \<Rightarrow> js_String pf mid)"

text \<open>\<open>getMemberPath(id)\<close>; \<open>None\<close> is the undefined result.\<close>

definition getMemberPath :: "platform \<Rightarrow> world \<Rightarrow> val \<Rightarrow> string option" where
  "getMemberPath pf w mid =
     (let s = coerce_id pf mid
      in if js_includes s ''/'' then None else Some (js_join ''/'' [groupPath w, s]))"

text \<open>\<open>!path\<close>: true for undefined and for the empty string.\<close>

definition falsy_path :: "string option \<Rightarrow> bool" where
  "falsy_path p = (case p of None \<Rightarrow> True | Some s \<Rightarrow> s = [])"

text \<open>
  \<open>registerMember(id, data = {})\<close>. \<open>data\<close> is a reference into the heap, or omitted,
  and then the default parameter creates a fresh empty object on entry. A reference to
  no object is not a value of the language (\<open>None\<close> below: such a call is no call).
\<close>

definition data_param :: "nat option \<Rightarrow> world \<Rightarrow> (nat \<times> world) option" where
  "data_param data0 w =
     (case data0 of
        None \<Rightarrow> Some (length (heap w), w\<lparr>heap := heap w @ [[]]\<rparr>)
      | Some r \<Rightarrow> if r < length (heap w) then Some (r, w) else None)"

text \<open>
  \<open>if (typeof id === 'undefined') { id = uuid(); }\<close>, where \<open>uuid\<close> is the string
  that \<open>uuid()\<close> returns if it is called.
\<close>

definition default_id :: "val \<Rightarrow> string \<Rightarrow> val" where
  "default_id mid0 uuid = (if mid0 = Undefined then Str uuid else mid0)"

definition registerMember :: "platform \<Rightarrow> val \<Rightarrow> nat option \<Rightarrow> string \<Rightarrow> world \<Rightarrow> world" where
  "registerMember pf mid0 data0 uuid w =
     (case data_param data0 w of
        None \<Rightarrow> w
      | Some (r, w0) \<Rightarrow>
          (let mid = default_id mid0 uuid;
               path = getMemberPath pf w0 mid
           in if falsy_path path then new_op (Refused (Error ''Illegal member ID'')) w0
              else
                (let d = AList.update ''registrationTimeUTC'' (Num (int (clock w0))) (heap w0 ! r);
                     w1 = w0\<lparr>heap := (heap w0)[r := d]\<rparr>;
                     asBuffer = JSON_stringify pf d
                 in new_op (Call (RegisterOp mid r)
                              (timedPromiseByCallback (clock w1) [] (timeout w1) False))
                      (client_call (Create (the path) asBuffer ZK_CREATE_MODE_EPHEMERAL) w1))))"

definition getMemberData :: "platform \<Rightarrow> val \<Rightarrow> world \<Rightarrow> world" where
  "getMemberData pf mid w =
     (let path = getMemberPath pf w mid
      in if falsy_path path then new_op (Refused (Error ''Illegal member ID'')) w
         else new_op (Call (MemberDataOp mid)
                        (timedPromiseByCallback (clock w) [] (timeout w) True))
                (client_call (GetData (the path)) w))"

text \<open>
  The \<open>.then\<close> continuation each method chains on its timed promise. For
  \<open>getMemberData\<close> the fulfilment value is destructured as \<open>[buffer, stat]\<close>; a
  pattern element with no array element is undefined, and an exception thrown in the
  continuation rejects the promise. (That promise is made in array mode, so its value
  is always an array; the last equation is never reached.)
\<close>

definition element :: "val list \<Rightarrow> nat \<Rightarrow> val" where
  "element vs i = (if i < length vs then vs ! i else Undefined)"

fun continuation :: "platform \<Rightarrow> op_kind \<Rightarrow> val \<Rightarrow> resolved promise" where
  "continuation pf SetupOp v = Fulfilled This"
| "continuation pf GetMembersOp v = Fulfilled (Value v)"
| "continuation pf (RegisterOp mid r) v = Fulfilled (Member mid r)"
| "continuation pf (MemberDataOp mid) (Arr vs) =
     (case JSON_parse_buffer pf (element vs 0) of
        Inl e \<Rightarrow> Rejected e
      | Inr d \<Rightarrow> Fulfilled (MemberData mid d (element vs 1)))"
| "continuation pf (MemberDataOp mid) v = Rejected (External ''TypeError'')"

text \<open>The promise an API call returned, as its caller sees it.\<close>

definition promise_of :: "platform \<Rightarrow> operation \<Rightarrow> resolved promise" where
  "promise_of pf x =
     (case x of
        Refused e \<Rightarrow> Rejected e
      | Call kind tp \<Rightarrow>
          (case result tp of
             Pending \<Rightarrow> Pending
           | Rejected e \<Rightarrow> Rejected e
           | Fulfilled v \<Rightarrow> continuation pf kind v))"

section \<open>Events\<close>

definition emit :: "emitted \<Rightarrow> world \<Rightarrow> world" where
  "emit e w = w\<lparr>emitted := emitted w @ [e]\<rparr>"

text \<open>
  An event for the \<open>k\<close>-th promise. When it settles the promise and the relay has
  chained its handlers on it, the handler for the outcome runs and emits.
\<close>

definition deliver_op :: "nat \<Rightarrow> tevent \<Rightarrow> world \<Rightarrow> world" where
  "deliver_op k ev w =
     (if k < length (ops w) then
        (case ops w ! k of
           Refused e \<Rightarrow> w
         | Call kind tp \<Rightarrow>
             (let tp' = deliver (clock w) ev tp;
                  w' = w\<lparr>ops := (ops w)[k := Call kind tp']\<rparr>
              in if result tp = Pending \<and> k \<in> set (subscribed w) then
                   (case result tp' of
                      Pending \<Rightarrow> w'
                    | Fulfilled v \<Rightarrow> emit (Members v) w'
                    | Rejected e \<Rightarrow> emit (ErrorEvent e) w')
                 else w'))
      else w)"

text \<open>
  A call of the function object \<open>f\<close> with one argument, of which only the \<open>name\<close>
  field is read: the relay ignores its arguments, the state listener emits an error
  for every state but \<open>SYNC_CONNECTED\<close>.
\<close>

definition invoke :: "nat \<Rightarrow> string \<Rightarrow> world \<Rightarrow> world" where
  "invoke f name w =
     (if f < length (closures w) then
        (case closures w ! f of
           Relay \<Rightarrow> relay w
         | StateListener \<Rightarrow>
             if name \<noteq> ''SYNC_CONNECTED'' then emit (ErrorEvent (Error ''Disconnected'')) w
             else w)
      else w)"

text \<open>
  Modelled from the spec: the client's side of a structural change under the group path
  (section 6: one-shot watches). The registry is emptied and each watcher that was
  armed is called once. A change of the connection state calls every listener
  registered for \<open>state\<close>.
\<close>

definition change :: "world \<Rightarrow> world" where
  "change w =
     foldl (\<lambda>w f. invoke f ''NODE_CHILDREN_CHANGED'' w) (w\<lparr>watches := []\<rparr>) (watches w)"

definition state_change :: "string \<Rightarrow> world \<Rightarrow> world" where
  "state_change name w = foldl (\<lambda>w f. invoke f name w) w (state_listeners w)"

text \<open>
  What can happen to an instance: a call of its API by the user (with the inputs the
  call reads from its surroundings), the creation of an object by the user, and the
  events of the client and of the timers.
\<close>

datatype action =
    Setup
  | GetMembers
  | StartMonitor
  | RegisterMember val "nat option" string
  | GetMemberData val
  | Alloc doc
  | Respond nat cb_args
  | TimerFire nat
  | Change
  | StateChange string

fun apply_action :: "platform \<Rightarrow> action \<Rightarrow> world \<Rightarrow> world" where
  "apply_action pf Setup w = setup_group w"
| "apply_action pf GetMembers w = getMembers w"
| "apply_action pf StartMonitor w = startMonitor w"
| "apply_action pf (RegisterMember mid data0 uuid) w = registerMember pf mid data0 uuid w"
| "apply_action pf (GetMemberData mid) w = getMemberData pf mid w"
| "apply_action pf (Alloc d) w = w\<lparr>heap := heap w @ [d]\<rparr>"
| "apply_action pf (Respond k a) w = deliver_op k (Callback a) w"
| "apply_action pf (TimerFire k) w = deliver_op k TimerFired w"
| "apply_action pf Change w = change w"
| "apply_action pf (StateChange name) w = state_change name w"

text \<open>A run: each action comes with the time that passed since the previous one.\<close>

definition step :: "platform \<Rightarrow> world \<Rightarrow> nat \<times> action \<Rightarrow> world" where
  "step pf w x = apply_action pf (snd x) (w\<lparr>clock := clock w + fst x\<rparr>)"

fun run :: "platform \<Rightarrow> world \<Rightarrow> (nat \<times> action) list \<Rightarrow> world" where
  "run pf w [] = w"
| "run pf w (x # xs) = run pf (step pf w x) xs"

section \<open>Counting and invariants\<close>




text \<open>
  A timed promise is coherent when its race is pending only while the inner promise is
  pending and the timer has not run.
\<close>

definition coherent :: "timed \<Rightarrow> bool" where
  "coherent tp \<longleftrightarrow> (raced tp = Pending \<longrightarrow> inner tp = Pending \<and> \<not> fired tp)"

text \<open>The \<open>k\<close>-th promise is a timed promise with the property \<open>P\<close>.\<close>

definition op_at :: "world \<Rightarrow> nat \<Rightarrow> (op_kind \<Rightarrow> timed \<Rightarrow> bool) \<Rightarrow> bool" where
  "op_at w k P \<longleftrightarrow>
     k < length (ops w) \<and> (case ops w ! k of Call kind tp \<Rightarrow> P kind tp | Refused e \<Rightarrow> False)"

text \<open>An instance on which \<open>startMonitor\<close> has not been called.\<close>

definition unmonitored :: "world \<Rightarrow> bool" where
  "unmonitored w \<longleftrightarrow>
     membersChangedListener w = None \<and> watches w = [] \<and> closures w = []
     \<and> state_listeners w = []
     \<and> list_all (\<lambda>c. case c of GetChildren p f \<Rightarrow> f = None | _ \<Rightarrow> True) (calls w)"

text \<open>
  From \<open>w\<close> to \<open>w'\<close> the relay field is the function \<open>r\<close>, and every
  \<open>getChildren\<close> call made on the way was given \<open>r\<close> as its watcher.
\<close>

definition rearmed :: "nat \<Rightarrow> world \<Rightarrow> world \<Rightarrow> bool" where
  "rearmed r w w' \<longleftrightarrow>
     membersChangedListener w' = Some r
     \<and> (\<exists>new. calls w' = calls w @ new \<and> (\<forall>p f. GetChildren p f \<in> set new \<longrightarrow> f = Some r))"





text \<open>
  A platform for the concrete runs below. \<open>String\<close> is given for undefined, null,
  strings, buffers and whole numbers (in decimal, as JavaScript prints a whole number
  below \<open>10^21\<close>); the serialiser only tells an empty document from another, and the
  parser accepts the contents of a buffer as they are.
\<close>

function decimal :: "nat \<Rightarrow> string" where
  "decimal n =
     (if n < 10 then [''0123456789'' ! n]
      else decimal (n div 10) @ [''0123456789'' ! (n mod 10)])"
  by pat_completeness auto
termination
  by (relation "measure (\<lambda>n. n)") auto

declare decimal.simps [simp del]

definition number_string :: "int \<Rightarrow> string" where
  "number_string i = (if i < 0 then CHR ''-'' # decimal (nat (- i)) else decimal (nat i))"

definition example_platform :: platform where
  "example_platform =
     \<lparr>js_String = (\<lambda>v. case v of Undefined \<Rightarrow> ''undefined'' | Null \<Rightarrow> ''null''
                          | Num i \<Rightarrow> number_string i
                          | Str s \<Rightarrow> s | Buffer s \<Rightarrow> s | _ \<Rightarrow> ''[object Object]''),
      JSON_stringify = (\<lambda>d. if d = [] then ''{}'' else ''{...}''),
      JSON_parse_buffer = (\<lambda>v. case v of Buffer s \<Rightarrow> Inr (Str s)
                          | _ \<Rightarrow> Inl (External ''TypeError''))\<rparr>"

section \<open>Properties of the timeout-racing executor\<close>

lemma verdict_cases:
  "verdict array a = (case err a of Some e \<Rightarrow> Rejected e
      | None \<Rightarrow> Fulfilled (if array then Arr (vals a) else first_value (vals a)))"
  by (simp add: verdict_def resolverAsCallback_def resolve_def reject_def split: option.splits)

lemma verdict_settled: "verdict array a \<noteq> Pending"
  by (simp add: verdict_cases split: option.splits)

lemma resolverAsCallback_Pending: "resolverAsCallback array a Pending = verdict array a"
  by (simp add: verdict_def)

lemma resolverAsCallback_settled: "p \<noteq> Pending \<Longrightarrow> resolverAsCallback array a p = p"
  by (cases p) (simp_all add: resolverAsCallback_def resolve_def reject_def split: option.splits)

lemma foldl_settled:
  "p \<noteq> Pending \<Longrightarrow> foldl (\<lambda>p a. resolverAsCallback array a p) p cbs = p"
  by (induction cbs) (simp_all add: resolverAsCallback_settled)

lemma foldl_own_outcome:
  "foldl (\<lambda>p a. resolverAsCallback array a p) Pending cbs = own_outcome array cbs"
  by (cases cbs)
     (simp_all add: own_outcome_def resolverAsCallback_Pending foldl_settled verdict_settled)

lemma deliver_fields [simp]:
  "as_array (deliver now ev tp) = as_array tp"
  "created (deliver now ev tp) = created tp"
  "timer (deliver now ev tp) = timer tp"
  by (simp_all add: deliver_def Let_def split: tevent.splits option.splits)

lemma run_timed_fields [simp]:
  "as_array (run_timed now tp es) = as_array tp"
  "created (run_timed now tp es) = created tp"
  "timer (run_timed now tp es) = timer tp"
  by (induction now tp es rule: run_timed.induct) simp_all

lemma run_timed_append:
  "run_timed now tp (xs @ ys) = run_timed (now + elapsed xs) (run_timed now tp xs) ys"
  by (induction now tp xs rule: run_timed.induct) (simp_all add: add.assoc)

text \<open>The inner promise only sees the callback: the first invocation decides it.\<close>

lemma inner_run_timed:
  "inner (run_timed now tp es)
     = foldl (\<lambda>p a. resolverAsCallback (as_array tp) a p) (inner tp) (callbacks_of es)"
proof (induction now tp es rule: run_timed.induct)
  case (1 now tp)
  show ?case by simp
next
  case (2 now tp dt ev es)
  then show ?case by (cases ev) (simp_all add: deliver_def Let_def split: option.splits)
qed

text \<open>Once the race is settled, no event changes it.\<close>

lemma raced_deliver_settled:
  "raced tp \<noteq> Pending \<Longrightarrow> raced (deliver now ev tp) = raced tp"
  by (cases "raced tp")
     (simp_all add: deliver_def Let_def reject_def split: tevent.splits option.splits)

lemma raced_run_settled:
  "raced tp \<noteq> Pending \<Longrightarrow> raced (run_timed now tp es) = raced tp"
  by (induction now tp es rule: run_timed.induct) (simp_all add: raced_deliver_settled)

lemma timedPromiseByCallback_fields [simp]:
  "as_array (timedPromiseByCallback now sync tmo array) = array"
  "created (timedPromiseByCallback now sync tmo array) = now"
  "timer (timedPromiseByCallback now sync tmo array) = tmo"
  "fired (timedPromiseByCallback now sync tmo array) = False"
  "inner (timedPromiseByCallback now sync tmo array) = own_outcome array sync"
  "raced (timedPromiseByCallback now sync tmo array) = own_outcome array sync"
  by (simp_all add: timedPromiseByCallback_def withTimeout_def foldl_own_outcome
        split: option.splits)

text \<open>
  An answer given inside the call leaves the promise as the same answer does when it is
  the first event after the call, with no time passed.
\<close>

lemma sync_answer_as_event:
  "timedPromiseByCallback now [a] tmo array
     = deliver now (Callback a) (timedPromiseByCallback now [] tmo array)"
  by (simp add: timedPromiseByCallback_def withTimeout_def deliver_def Let_def
        split: option.splits)

lemma no_timeout_result:
  "result (run_timed now (timedPromiseByCallback now sync None array) es)
     = own_outcome array (sync @ callbacks_of es)"
  by (simp add: result_def inner_run_timed foldl_own_outcome[symmetric])

lemma timer_delay_le: "timer_delay d \<le> d"
  by (simp add: timer_delay_def TIMEOUT_MAX_def)

lemma timer_delay_bounded: "d \<le> 2147483647 \<Longrightarrow> timer_delay d = d"
  by (simp add: timer_delay_def TIMEOUT_MAX_def)

lemma timer_delay_overflow: "2147483647 < d \<Longrightarrow> timer_delay d = 1"
  by (simp add: timer_delay_def TIMEOUT_MAX_def)

lemma early_timer_ignored:
  "timer tp = Some d \<Longrightarrow> now < created tp + timer_delay d \<Longrightarrow> deliver now TimerFired tp = tp"
  by (simp add: deliver_def)

lemma idle_prefix:
  "callbacks_of pre = [] \<Longrightarrow> timer tp = Some d
     \<Longrightarrow> now + elapsed pre < created tp + timer_delay d \<Longrightarrow> run_timed now tp pre = tp"
proof (induction now tp pre rule: run_timed.induct)
  case (1 now tp)
  show ?case by simp
next
  case (2 now tp dt ev es)
  then show ?case by (cases ev) (simp_all add: early_timer_ignored)
qed

lemma waiting_deliver: "waiting d tp \<Longrightarrow> waiting d (deliver now TimerFired tp)"
  by (auto simp: waiting_def deliver_def reject_def)

lemma waiting_run:
  "callbacks_of pre = [] \<Longrightarrow> waiting d tp \<Longrightarrow> waiting d (run_timed now tp pre)"
proof (induction now tp pre rule: run_timed.induct)
  case (1 now tp)
  then show ?case by simp
next
  case (2 now tp dt ev es)
  then show ?case by (cases ev) (simp_all add: waiting_deliver)
qed

lemma waiting_fresh: "waiting d (timedPromiseByCallback now [] (Some d) array)"
  by (simp add: waiting_def own_outcome_def)

lemma waiting_fire:
  "waiting d tp \<Longrightarrow> created tp + timer_delay d \<le> now
     \<Longrightarrow> raced (deliver now TimerFired tp) = Rejected (Error ''Timeout'')"
  by (auto simp: waiting_def deliver_def reject_def)

lemma waiting_callback:
  "waiting d tp \<Longrightarrow> \<not> fired tp
     \<Longrightarrow> raced (deliver now (Callback a) tp) = verdict (as_array tp) a"
  by (auto simp: waiting_def deliver_def Let_def resolverAsCallback_Pending)

lemma sync_wins:
  "result (run_timed now (timedPromiseByCallback now (a # rest) (Some d) array) es)
     = verdict array a"
  by (simp add: result_def raced_run_settled own_outcome_def verdict_settled)

lemma callback_in_time:
  assumes "callbacks_of pre = []" "elapsed pre + dt < timer_delay d"
  shows "result (run_timed now (timedPromiseByCallback now [] (Some d) array)
            (pre @ (dt, Callback a) # post)) = verdict array a"
proof -
  let ?tp = "timedPromiseByCallback now [] (Some d) array"
  have idle: "run_timed now ?tp pre = ?tp"
    using assms by (intro idle_prefix[where d = d]) simp_all
  have "raced (deliver (now + elapsed pre + dt) (Callback a) ?tp) = verdict array a"
    using waiting_callback[OF waiting_fresh, of now d array] by simp
  then show ?thesis
    by (simp add: run_timed_append idle result_def raced_run_settled verdict_settled)
qed

lemma timer_first:
  assumes "callbacks_of pre = []" "timer_delay d \<le> elapsed pre + dt"
  shows "result (run_timed now (timedPromiseByCallback now [] (Some d) array)
            (pre @ (dt, TimerFired) # post)) = Rejected (Error ''Timeout'')"
proof -
  let ?tp = "timedPromiseByCallback now [] (Some d) array"
  let ?tp1 = "run_timed now ?tp pre"
  have w: "waiting d ?tp1"
    using assms(1) by (rule waiting_run) (rule waiting_fresh)
  have "raced (deliver (now + elapsed pre + dt) TimerFired ?tp1) = Rejected (Error ''Timeout'')"
    using assms(2) by (intro waiting_fire[OF w]) simp
  then show ?thesis
    by (simp add: run_timed_append result_def raced_run_settled)
qed

text \<open>
  What holds of the race for a deadline that the platform's timer can hold: with an
  undefined deadline no timeout is applied and the result is the operation's own
  outcome, whatever timers the schedule may hold; with a deadline \<open>d\<close> of at most
  \<open>2^31 - 1\<close> ms, an operation that settles before \<open>d\<close> ms have passed (inside the
  call, or by a callback first invoked at a time below \<open>now + d\<close>) decides the
  result, and a timer that runs first (at or after \<open>now + d\<close>) rejects it with
  \<open>Error('Timeout')\<close>; whatever follows in the schedule leaves the result as it is.
  A deadline above \<open>2^31 - 1\<close> ms is raced as 1 ms.
\<close>

lemma withTimeout_race_in_range:
  "result (run_timed now (timedPromiseByCallback now sync None array) es)
      = own_outcome array (sync @ callbacks_of es)
   \<and> result (run_timed now (timedPromiseByCallback now (a # rest) (Some d) array) es)
      = verdict array a
   \<and> (d \<le> 2147483647 \<and> callbacks_of pre = [] \<and> elapsed pre + dt < d \<longrightarrow>
        result (run_timed now (timedPromiseByCallback now [] (Some d) array)
                  (pre @ (dt, Callback a) # post)) = verdict array a)
   \<and> (d \<le> 2147483647 \<and> callbacks_of pre = [] \<and> d \<le> elapsed pre + dt \<longrightarrow>
        result (run_timed now (timedPromiseByCallback now [] (Some d) array)
                  (pre @ (dt, TimerFired) # post)) = Rejected (Error ''Timeout''))
   \<and> (2147483647 < d \<and> callbacks_of pre = [] \<and> 1 \<le> elapsed pre + dt \<longrightarrow>
        result (run_timed now (timedPromiseByCallback now [] (Some d) array)
                  (pre @ (dt, TimerFired) # post)) = Rejected (Error ''Timeout''))"
  by (simp add: no_timeout_result sync_wins callback_in_time timer_first
        timer_delay_bounded timer_delay_overflow)

text \<open>
  Claim C2 does not hold of the code for every deadline. \<open>withTimeout\<close> passes the
  deadline to \<open>setTimeout\<close> unchecked, and a deadline above \<open>2^31 - 1\<close> ms is run by
  the timer as 1 ms. Below, the deadline is 2147483648 ms and the operation answers
  20 ms after the call, long before the deadline has elapsed: the timer has run at 1 ms
  and the result is \<open>Error('Timeout')\<close>, not the operation's outcome. With a deadline
  of 2147483647 ms the same schedule gives the operation's outcome, as the claim and the
  comment above \<open>withTimeout\<close> say.
\<close>

theorem withTimeout_deadline_overflow:
  "result (run_timed 0 (timedPromiseByCallback 0 [] (Some 2147483648) False)
       [(1, TimerFired), (19, Callback \<lparr>err = None, vals = [Arr [Str ''node-a'']]\<rparr>)])
     = Rejected (Error ''Timeout'')
   \<and> result (run_timed 0 (timedPromiseByCallback 0 [] (Some 2147483647) False)
       [(1, TimerFired), (19, Callback \<lparr>err = None, vals = [Arr [Str ''node-a'']]\<rparr>)])
     = Fulfilled (Arr [Str ''node-a''])"
  by (simp add: timedPromiseByCallback_def withTimeout_def deliver_def result_def Let_def
        timer_delay_def TIMEOUT_MAX_def resolverAsCallback_def resolve_def reject_def
        first_value_def)

lemma callback_first:
  "result (run_timed now (timedPromiseByCallback now [] (Some d) array) ((dt, Callback a) # post))
     = verdict array a"
proof -
  let ?tp = "timedPromiseByCallback now [] (Some d) array"
  have "\<not> fired ?tp" by simp
  then have "raced (deliver (now + dt) (Callback a) ?tp) = verdict (as_array ?tp) a"
    by (rule waiting_callback[OF waiting_fresh])
  then show ?thesis
    by (simp add: result_def raced_run_settled verdict_settled)
qed

text \<open>
  Claim C8, as stated, fails. With a deadline of zero and an operation that has not
  completed inside the call, the result is not decided at the call: \<open>delay(0)\<close> arms
  a timer, and an answer of the operation that the event loop runs before that timer
  decides the race. Below the callback is invoked in the same millisecond as the call,
  the timer runs one millisecond later, and the result is the list of children.
\<close>

theorem zero_deadline_counterexample:
  "result (run_timed 0 (timedPromiseByCallback 0 [] (Some 0) False)
       [(0, Callback \<lparr>err = None, vals = [Arr [Str ''node-a'']]\<rparr>), (1, TimerFired)])
     = Fulfilled (Arr [Str ''node-a''])
   \<and> result (run_timed 0 (timedPromiseByCallback 0 [] (Some 0) False)
       [(0, Callback \<lparr>err = None, vals = [Arr [Str ''node-a'']]\<rparr>), (1, TimerFired)])
     \<noteq> Rejected (Error ''Timeout'')"
  by (simp add: timedPromiseByCallback_def withTimeout_def deliver_def result_def Let_def
        resolverAsCallback_def resolve_def reject_def first_value_def)

text \<open>
  Claim C8, amended. A deadline of zero is a deadline like any other (it is not taken
  for "no timeout", and it is not taken for "already expired"): if the operation
  completed inside the call, the result is its outcome; otherwise the first event the
  loop runs decides, \<open>Error('Timeout')\<close> if it is the timer and the operation's own
  outcome if it is its callback, and the result is pending until then.
\<close>

theorem zero_deadline_first_event:
  "result (run_timed now (timedPromiseByCallback now sync (Some 0) array) es) =
     (case sync of
        a # rest \<Rightarrow> verdict array a
      | [] \<Rightarrow>
          (case es of
             [] \<Rightarrow> Pending
           | (dt, TimerFired) # post \<Rightarrow> Rejected (Error ''Timeout'')
           | (dt, Callback a) # post \<Rightarrow> verdict array a))"
proof (cases sync)
  case (Cons a rest)
  then show ?thesis by (simp add: sync_wins)
next
  case Nil
  show ?thesis
  proof (cases es)
    case Nil
    with \<open>sync = []\<close> show ?thesis by (simp add: result_def own_outcome_def)
  next
    case (Cons x post)
    obtain dt ev where x: "x = (dt, ev)" by (cases x)
    show ?thesis
    proof (cases ev)
      case (Callback a)
      with Cons x \<open>sync = []\<close> show ?thesis
        using callback_first[where now = now and d = 0 and dt = dt and post = post] by simp
    next
      case TimerFired
      with Cons x \<open>sync = []\<close> show ?thesis
        using timer_first[of "[]" 0 dt now array post] by (simp add: timer_delay_def)
    qed
  qed
qed

theorem zero_deadline_first_event_witness:
  "result (run_timed 3 (timedPromiseByCallback 3 [] (Some 0) False)
       [(0, TimerFired), (0, Callback \<lparr>err = None, vals = [Arr []]\<rparr>)])
     = Rejected (Error ''Timeout'')
   \<and> result (run_timed 3 (timedPromiseByCallback 3 [] (Some 0) False)
       [(0, Callback \<lparr>err = Some (External ''NO_NODE''), vals = []\<rparr>), (0, TimerFired)])
     = Rejected (External ''NO_NODE'')
   \<and> result (run_timed 3 (timedPromiseByCallback 3 [\<lparr>err = None, vals = [Arr []]\<rparr>]
       (Some 0) False) [(0, TimerFired)])
     = Fulfilled (Arr [])"
  using zero_deadline_first_event [of 3 "[]" False
          "[(0, TimerFired), (0, Callback \<lparr>err = None, vals = [Arr []]\<rparr>)]"]
        zero_deadline_first_event [of 3 "[]" False
          "[(0, Callback \<lparr>err = Some (External ''NO_NODE''), vals = []\<rparr>), (0, TimerFired)]"]
        zero_deadline_first_event [of 3 "[\<lparr>err = None, vals = [Arr []]\<rparr>]" False
          "[(0, TimerFired)]"]
  by (simp add: verdict_cases first_value_def)

section \<open>Member paths and illegal ids\<close>

lemma js_includes_char: "js_includes s [c] \<longleftrightarrow> c \<in> set s"
  by (induction s) auto

lemma getMemberPath_eq:
  "getMemberPath pf w mid =
     (if CHR ''/'' \<in> set (coerce_id pf mid) then None
      else Some (groupPath w @ ''/'' @ coerce_id pf mid))"
  by (simp add: getMemberPath_def Let_def js_includes_char)

lemma falsy_path_getMemberPath:
  "falsy_path (getMemberPath pf w mid) \<longleftrightarrow> CHR ''/'' \<in> set (coerce_id pf mid)"
  by (simp add: getMemberPath_eq falsy_path_def)

text \<open>
  Claim C6. \<open>getMemberPath(id)\<close> first coerces the id to a string: a string is taken
  as it is, and any other value is replaced by \<open>String(id)\<close>. When the coerced string
  contains \<open>'/'\<close> the result is undefined, a returned value; otherwise it is exactly
  the group path, \<open>'/'\<close> and the coerced id. The result depends on the instance
  through its group path only.
\<close>

theorem getMemberPath_derivation:
  "coerce_id pf (Str s) = s
   \<and> ((\<forall>s. mid \<noteq> Str s) \<longrightarrow> coerce_id pf mid = js_String pf mid)
   \<and> getMemberPath pf w mid =
       (if CHR ''/'' \<in> set (coerce_id pf mid) then None
        else Some (groupPath w @ ''/'' @ coerce_id pf mid))
   \<and> getMemberPath pf w (Str s) =
       (if CHR ''/'' \<in> set s then None else Some (groupPath w @ ''/'' @ s))
   \<and> ((\<forall>s. mid \<noteq> Str s) \<longrightarrow>
        getMemberPath pf w mid =
          (if CHR ''/'' \<in> set (js_String pf mid) then None
           else Some (groupPath w @ ''/'' @ js_String pf mid)))
   \<and> (groupPath w = groupPath w' \<longrightarrow> getMemberPath pf w mid = getMemberPath pf w' mid)"
proof -
  have non_string: "coerce_id pf mid = js_String pf mid" if "\<forall>s. mid \<noteq> Str s"
    using that by (cases mid) (simp_all add: coerce_id_def)
  show ?thesis
    by (simp add: getMemberPath_eq non_string) (simp add: coerce_id_def)
qed

theorem getMemberPath_derivation_witness:
  "getMemberPath example_platform (constructor (Some ''/groups/demo'') None None) (Str ''node-a'')
     = Some ''/groups/demo/node-a''
   \<and> getMemberPath example_platform (constructor (Some ''/groups/demo'') None None) (Str ''a/b'')
     = None
   \<and> (\<forall>s. Num 42 \<noteq> Str s)
   \<and> coerce_id example_platform (Num 42) = ''42''
   \<and> getMemberPath example_platform (constructor (Some ''/groups/demo'') None None) (Num 42)
     = Some ''/groups/demo/42''
   \<and> (\<forall>s. Null \<noteq> Str s)
   \<and> getMemberPath example_platform (constructor None None None) Null
     = Some ''/groups/default/null''
   \<and> groupPath (constructor None None None) = groupPath (constructor None (Some 5) None)
   \<and> getMemberPath example_platform (constructor None None None) (Str ''n'')
     = getMemberPath example_platform (constructor None (Some 5) None) (Str ''n'')"
proof -
  let ?demo = "constructor (Some ''/groups/demo'') None None"
  let ?w = "constructor None None None"
  let ?w' = "constructor None (Some 5) None"
  note A = getMemberPath_derivation [where pf = example_platform and w = ?demo
      and s = "''node-a''" and mid = "Num 42" and w' = ?demo]
  note B = getMemberPath_derivation [where pf = example_platform and w = ?demo
      and s = "''a/b''" and mid = "Num 42" and w' = ?demo]
  note C = getMemberPath_derivation [where pf = example_platform and w = ?w
      and s = "''n''" and mid = Null and w' = ?w']
  note D = getMemberPath_derivation [where pf = example_platform and w = ?w
      and s = "''n''" and mid = "Str ''n''" and w' = ?w']
  have g: "groupPath ?demo = ''/groups/demo''" "groupPath ?w = ''/groups/default''"
      "groupPath ?w = groupPath ?w'"
    by (simp_all add: constructor_def)
  have n: "\<forall>s. Num 42 \<noteq> Str s" "\<forall>s. Null \<noteq> Str s" by simp_all
  have j: "js_String example_platform (Num 42) = ''42''"
      "js_String example_platform Null = ''null''"
    by (simp_all add: example_platform_def number_string_def decimal.simps)
  from A have 1: "getMemberPath example_platform ?demo (Str ''node-a'') = Some ''/groups/demo/node-a''"
    by (simp add: g)
  from B have 2: "getMemberPath example_platform ?demo (Str ''a/b'') = None"
    by simp
  from A n(1) have "coerce_id example_platform (Num 42) = js_String example_platform (Num 42)"
    by blast
  then have 3: "coerce_id example_platform (Num 42) = ''42''" by (simp only: j)
  from A n(1) have "getMemberPath example_platform ?demo (Num 42) =
      (if CHR ''/'' \<in> set (js_String example_platform (Num 42)) then None
       else Some (groupPath ?demo @ ''/'' @ js_String example_platform (Num 42)))"
    by blast
  then have 4: "getMemberPath example_platform ?demo (Num 42) = Some ''/groups/demo/42''"
    by (simp add: j g)
  from C n(2) have "getMemberPath example_platform ?w Null =
      (if CHR ''/'' \<in> set (js_String example_platform Null) then None
       else Some (groupPath ?w @ ''/'' @ js_String example_platform Null))"
    by blast
  then have 5: "getMemberPath example_platform ?w Null = Some ''/groups/default/null''"
    by (simp add: j g)
  from D g(3) have 6: "getMemberPath example_platform ?w (Str ''n'')
      = getMemberPath example_platform ?w' (Str ''n'')"
    by blast
  from 1 2 n(1) 3 4 n(2) 5 g(3) 6 show ?thesis by (intro conjI)
qed

lemma new_op_fields [simp]:
  "ops (new_op x w) = ops w @ [x]"
  "calls (new_op x w) = calls w"
  "heap (new_op x w) = heap w"
  "clock (new_op x w) = clock w"
  "emitted (new_op x w) = emitted w"
  "watches (new_op x w) = watches w"
  "subscribed (new_op x w) = subscribed w"
  "closures (new_op x w) = closures w"
  "state_listeners (new_op x w) = state_listeners w"
  "membersChangedListener (new_op x w) = membersChangedListener w"
  "groupPath (new_op x w) = groupPath w"
  "timeout (new_op x w) = timeout w"
  "setupTimeout (new_op x w) = setupTimeout w"
  by (simp_all add: new_op_def)

lemma client_call_fields [simp]:
  "ops (client_call c w) = ops w"
  "calls (client_call c w) = calls w @ [c]"
  "heap (client_call c w) = heap w"
  "clock (client_call c w) = clock w"
  "emitted (client_call c w) = emitted w"
  "subscribed (client_call c w) = subscribed w"
  "closures (client_call c w) = closures w"
  "membersChangedListener (client_call c w) = membersChangedListener w"
  "groupPath (client_call c w) = groupPath w"
  "timeout (client_call c w) = timeout w"
  "setupTimeout (client_call c w) = setupTimeout w"
  by (simp_all add: client_call_def Let_def split: client_call.splits option.splits)

lemma client_call_watches:
  "watches (client_call c w) =
     (case c of GetChildren p (Some f) \<Rightarrow> watches w @ [f] | _ \<Rightarrow> watches w)"
  by (simp add: client_call_def Let_def split: client_call.splits option.splits)

lemma client_call_state_listeners:
  "state_listeners (client_call c w) =
     (case c of On ev f \<Rightarrow> state_listeners w @ [f] | _ \<Rightarrow> state_listeners w)"
  by (simp add: client_call_def Let_def split: client_call.splits option.splits)

lemma emit_fields [simp]:
  "ops (emit e w) = ops w"
  "calls (emit e w) = calls w"
  "heap (emit e w) = heap w"
  "clock (emit e w) = clock w"
  "emitted (emit e w) = emitted w @ [e]"
  "watches (emit e w) = watches w"
  "subscribed (emit e w) = subscribed w"
  "closures (emit e w) = closures w"
  "state_listeners (emit e w) = state_listeners w"
  "membersChangedListener (emit e w) = membersChangedListener w"
  "groupPath (emit e w) = groupPath w"
  "timeout (emit e w) = timeout w"
  "setupTimeout (emit e w) = setupTimeout w"
  by (simp_all add: emit_def)

lemma getMemberPath_heap [simp]:
  "getMemberPath pf (w\<lparr>heap := h\<rparr>) mid = getMemberPath pf w mid"
  by (simp add: getMemberPath_eq)

text \<open>
  Claim C7. When the coerced id contains \<open>'/'\<close> (for \<open>registerMember\<close>: the id
  given, or the generated one when none is given), \<open>getMemberData\<close> and
  \<open>registerMember\<close> return a promise already rejected with
  \<open>Error('Illegal member ID')\<close>: the instance gains that promise and nothing else
  (but the empty object that the default parameter \<open>data = {}\<close> created), and the
  log of calls on the client is as it was.
\<close>

theorem illegal_id_refused:
  "(CHR ''/'' \<in> set (coerce_id pf mid) \<longrightarrow>
      getMemberData pf mid w = new_op (Refused (Error ''Illegal member ID'')) w
      \<and> calls (getMemberData pf mid w) = calls w
      \<and> promise_of pf (ops (getMemberData pf mid w) ! length (ops w))
          = Rejected (Error ''Illegal member ID''))
   \<and> (CHR ''/'' \<in> set (coerce_id pf (default_id given uuid)) \<and> data_param dref w \<noteq> None \<longrightarrow>
      registerMember pf given dref uuid w
        = new_op (Refused (Error ''Illegal member ID''))
            (case dref of None \<Rightarrow> w\<lparr>heap := heap w @ [[]]\<rparr> | Some r \<Rightarrow> w)
      \<and> calls (registerMember pf given dref uuid w) = calls w
      \<and> promise_of pf (ops (registerMember pf given dref uuid w) ! length (ops w))
          = Rejected (Error ''Illegal member ID''))"
  by (auto simp: getMemberData_def registerMember_def data_param_def Let_def promise_of_def
        falsy_path_getMemberPath split: option.splits if_splits)

theorem illegal_id_refused_witness:
  "CHR ''/'' \<in> set (coerce_id example_platform (Str ''a/b''))
   \<and> data_param None (constructor None None None) \<noteq> None
   \<and> calls (getMemberData example_platform (Str ''a/b'') (constructor None None None)) = []
   \<and> promise_of example_platform
         (ops (getMemberData example_platform (Str ''a/b'') (constructor None None None)) ! 0)
       = Rejected (Error ''Illegal member ID'')
   \<and> calls (registerMember example_platform (Str ''a/b'') None ''u'' (constructor None None None))
       = []
   \<and> promise_of example_platform
         (ops (registerMember example_platform (Str ''a/b'') None ''u''
                 (constructor None None None)) ! 0)
       = Rejected (Error ''Illegal member ID'')"
proof -
  let ?w = "constructor None None None"
  have h: "CHR ''/'' \<in> set (coerce_id example_platform (Str ''a/b''))"
          "data_param None ?w \<noteq> None"
    by (simp_all add: coerce_id_def data_param_def)
  have w: "length (ops ?w) = 0" "calls ?w = []"
    by (simp_all add: constructor_def)
  show ?thesis
    using h w illegal_id_refused [where pf = example_platform and mid = "Str ''a/b''"
          and given = "Str ''a/b''" and uuid = "''u''" and dref = None and w = ?w]
    by (simp add: default_id_def promise_of_def)
qed

section \<open>What each method and event changes\<close>

lemma getMembers_fields [simp]:
  "ops (getMembers w)
     = ops w @ [Call GetMembersOp (timedPromiseByCallback (clock w) [] (timeout w) False)]"
  "calls (getMembers w) = calls w @ [GetChildren (groupPath w) (membersChangedListener w)]"
  "watches (getMembers w)
     = (case membersChangedListener w of None \<Rightarrow> watches w | Some f \<Rightarrow> watches w @ [f])"
  "state_listeners (getMembers w) = state_listeners w"
  "heap (getMembers w) = heap w"
  "clock (getMembers w) = clock w"
  "emitted (getMembers w) = emitted w"
  "subscribed (getMembers w) = subscribed w"
  "closures (getMembers w) = closures w"
  "membersChangedListener (getMembers w) = membersChangedListener w"
  "groupPath (getMembers w) = groupPath w"
  "timeout (getMembers w) = timeout w"
  "setupTimeout (getMembers w) = setupTimeout w"
  by (simp_all add: getMembers_def client_call_watches client_call_state_listeners
        split: option.splits)

lemma relay_fields [simp]:
  "ops (relay w)
     = ops w @ [Call GetMembersOp (timedPromiseByCallback (clock w) [] (timeout w) False)]"
  "calls (relay w) = calls w @ [GetChildren (groupPath w) (membersChangedListener w)]"
  "watches (relay w)
     = (case membersChangedListener w of None \<Rightarrow> watches w | Some f \<Rightarrow> watches w @ [f])"
  "state_listeners (relay w) = state_listeners w"
  "heap (relay w) = heap w"
  "clock (relay w) = clock w"
  "emitted (relay w) = emitted w"
  "subscribed (relay w) = subscribed w @ [length (ops w)]"
  "closures (relay w) = closures w"
  "membersChangedListener (relay w) = membersChangedListener w"
  "groupPath (relay w) = groupPath w"
  "timeout (relay w) = timeout w"
  "setupTimeout (relay w) = setupTimeout w"
  by (simp_all add: relay_def Let_def)

lemma setup_group_fields [simp]:
  "ops (setup_group w)
     = ops w @ [Call SetupOp (timedPromiseByCallback (clock w) [] (setupTimeout w) False)]"
  "calls (setup_group w) = calls w @ [Mkdirp (groupPath w)]"
  "watches (setup_group w) = watches w"
  "state_listeners (setup_group w) = state_listeners w"
  "heap (setup_group w) = heap w"
  "clock (setup_group w) = clock w"
  "emitted (setup_group w) = emitted w"
  "subscribed (setup_group w) = subscribed w"
  "closures (setup_group w) = closures w"
  "membersChangedListener (setup_group w) = membersChangedListener w"
  "groupPath (setup_group w) = groupPath w"
  "timeout (setup_group w) = timeout w"
  "setupTimeout (setup_group w) = setupTimeout w"
  by (simp_all add: setup_group_def client_call_watches client_call_state_listeners)

lemma getMemberData_fields [simp]:
  "ops (getMemberData pf mid w)
     = ops w @ [if CHR ''/'' \<in> set (coerce_id pf mid) then Refused (Error ''Illegal member ID'')
                else Call (MemberDataOp mid) (timedPromiseByCallback (clock w) [] (timeout w) True)]"
  "calls (getMemberData pf mid w)
     = calls w @ (if CHR ''/'' \<in> set (coerce_id pf mid) then []
                  else [GetData (groupPath w @ ''/'' @ coerce_id pf mid)])"
  "watches (getMemberData pf mid w) = watches w"
  "state_listeners (getMemberData pf mid w) = state_listeners w"
  "heap (getMemberData pf mid w) = heap w"
  "clock (getMemberData pf mid w) = clock w"
  "emitted (getMemberData pf mid w) = emitted w"
  "subscribed (getMemberData pf mid w) = subscribed w"
  "closures (getMemberData pf mid w) = closures w"
  "membersChangedListener (getMemberData pf mid w) = membersChangedListener w"
  "groupPath (getMemberData pf mid w) = groupPath w"
  "timeout (getMemberData pf mid w) = timeout w"
  "setupTimeout (getMemberData pf mid w) = setupTimeout w"
  by (simp_all add: getMemberData_def Let_def getMemberPath_eq falsy_path_def
        client_call_watches client_call_state_listeners)

lemma startMonitor_installed: "membersChangedListener w = Some f \<Longrightarrow> startMonitor w = w"
  by (simp add: startMonitor_def)

lemma startMonitor_fresh:
  assumes "membersChangedListener w = None"
  shows "membersChangedListener (startMonitor w) = Some (length (closures w))"
    "closures (startMonitor w) = closures w @ [Relay, StateListener]"
    "calls (startMonitor w) = calls w @ [GetChildren (groupPath w) (Some (length (closures w))),
                                          On ''state'' (Suc (length (closures w)))]"
    "ops (startMonitor w)
       = ops w @ [Call GetMembersOp (timedPromiseByCallback (clock w) [] (timeout w) False)]"
    "subscribed (startMonitor w) = subscribed w @ [length (ops w)]"
    "watches (startMonitor w) = watches w @ [length (closures w)]"
    "state_listeners (startMonitor w) = state_listeners w @ [Suc (length (closures w))]"
    "emitted (startMonitor w) = emitted w"
    "heap (startMonitor w) = heap w"
    "clock (startMonitor w) = clock w"
    "groupPath (startMonitor w) = groupPath w"
    "timeout (startMonitor w) = timeout w"
    "setupTimeout (startMonitor w) = setupTimeout w"
  using assms
  by (simp_all add: startMonitor_def Let_def client_call_watches client_call_state_listeners)

lemma data_param_fields:
  "data_param dref w = Some (r, w0) \<Longrightarrow>
     r < length (heap w0) \<and> ops w0 = ops w \<and> calls w0 = calls w \<and> watches w0 = watches w
     \<and> state_listeners w0 = state_listeners w \<and> clock w0 = clock w \<and> emitted w0 = emitted w
     \<and> subscribed w0 = subscribed w \<and> closures w0 = closures w
     \<and> membersChangedListener w0 = membersChangedListener w \<and> groupPath w0 = groupPath w
     \<and> timeout w0 = timeout w \<and> setupTimeout w0 = setupTimeout w
     \<and> heap w0 = (case dref of None \<Rightarrow> heap w @ [[]] | Some x \<Rightarrow> heap w)
     \<and> r = (case dref of None \<Rightarrow> length (heap w) | Some x \<Rightarrow> x)"
  by (auto simp: data_param_def split: option.splits if_splits)

lemma registerMember_none: "data_param dref w = None \<Longrightarrow> registerMember pf given dref uuid w = w"
  by (simp add: registerMember_def)

lemma registerMember_fields:
  assumes "data_param dref w = Some (r, w0)"
  shows
  "ops (registerMember pf given dref uuid w)
     = ops w @ [if CHR ''/'' \<in> set (coerce_id pf (default_id given uuid))
                then Refused (Error ''Illegal member ID'')
                else Call (RegisterOp (default_id given uuid) r)
                       (timedPromiseByCallback (clock w) [] (timeout w) False)]"
  "calls (registerMember pf given dref uuid w)
     = calls w @ (if CHR ''/'' \<in> set (coerce_id pf (default_id given uuid)) then []
                  else [Create (groupPath w @ ''/'' @ coerce_id pf (default_id given uuid))
                          (JSON_stringify pf
                             (AList.update ''registrationTimeUTC'' (Num (int (clock w))) (heap w0 ! r)))
                          ZK_CREATE_MODE_EPHEMERAL])"
  "heap (registerMember pf given dref uuid w)
     = (if CHR ''/'' \<in> set (coerce_id pf (default_id given uuid)) then heap w0
        else (heap w0)[r := AList.update ''registrationTimeUTC'' (Num (int (clock w))) (heap w0 ! r)])"
  "watches (registerMember pf given dref uuid w) = watches w"
  "state_listeners (registerMember pf given dref uuid w) = state_listeners w"
  "clock (registerMember pf given dref uuid w) = clock w"
  "emitted (registerMember pf given dref uuid w) = emitted w"
  "subscribed (registerMember pf given dref uuid w) = subscribed w"
  "closures (registerMember pf given dref uuid w) = closures w"
  "membersChangedListener (registerMember pf given dref uuid w) = membersChangedListener w"
  "groupPath (registerMember pf given dref uuid w) = groupPath w"
  "timeout (registerMember pf given dref uuid w) = timeout w"
  "setupTimeout (registerMember pf given dref uuid w) = setupTimeout w"
  using data_param_fields[OF assms] assms
  by (simp_all add: registerMember_def Let_def getMemberPath_eq falsy_path_def
        client_call_watches client_call_state_listeners)

lemma deliver_op_fields [simp]:
  "calls (deliver_op k ev w) = calls w"
  "watches (deliver_op k ev w) = watches w"
  "state_listeners (deliver_op k ev w) = state_listeners w"
  "heap (deliver_op k ev w) = heap w"
  "clock (deliver_op k ev w) = clock w"
  "subscribed (deliver_op k ev w) = subscribed w"
  "closures (deliver_op k ev w) = closures w"
  "membersChangedListener (deliver_op k ev w) = membersChangedListener w"
  "groupPath (deliver_op k ev w) = groupPath w"
  "timeout (deliver_op k ev w) = timeout w"
  "setupTimeout (deliver_op k ev w) = setupTimeout w"
  "length (ops (deliver_op k ev w)) = length (ops w)"
  by (simp_all add: deliver_op_def Let_def split: operation.splits promise.splits)

lemma deliver_op_ops:
  "ops (deliver_op k ev w) =
     (if k < length (ops w) then
        (case ops w ! k of
           Call kind tp \<Rightarrow> (ops w)[k := Call kind (deliver (clock w) ev tp)]
         | Refused e \<Rightarrow> ops w)
      else ops w)"
  by (simp add: deliver_op_def Let_def split: operation.splits promise.splits)

lemma deliver_op_emitted:
  "emitted (deliver_op k ev w) =
     emitted w @
     (if k < length (ops w) then
        (case ops w ! k of
           Call kind tp \<Rightarrow>
             if result tp = Pending \<and> k \<in> set (subscribed w) then
               (case result (deliver (clock w) ev tp) of
                  Pending \<Rightarrow> []
                | Fulfilled v \<Rightarrow> [Members v]
                | Rejected e \<Rightarrow> [ErrorEvent e])
             else []
         | Refused e \<Rightarrow> [])
      else [])"
  by (simp add: deliver_op_def Let_def split: operation.splits promise.splits)

lemma invoke_cases:
  "invoke f name w = w \<or> invoke f name w = relay w
   \<or> invoke f name w = emit (ErrorEvent (Error ''Disconnected'')) w"
  by (simp add: invoke_def split: closure.splits)

lemma foldl_invoke_induct:
  assumes "P w" and "\<And>w f. P w \<Longrightarrow> P (invoke f name w)"
  shows "P (foldl (\<lambda>w f. invoke f name w) w fs)"
  using assms(1) by (induction fs arbitrary: w) (simp_all add: assms(2))

lemma invoke_fields [simp]:
  "heap (invoke f name w) = heap w"
  "clock (invoke f name w) = clock w"
  "closures (invoke f name w) = closures w"
  "state_listeners (invoke f name w) = state_listeners w"
  "membersChangedListener (invoke f name w) = membersChangedListener w"
  "groupPath (invoke f name w) = groupPath w"
  "timeout (invoke f name w) = timeout w"
  "setupTimeout (invoke f name w) = setupTimeout w"
  by (simp_all add: invoke_def split: closure.splits)

lemma change_fields [simp]:
  "heap (change w) = heap w"
  "clock (change w) = clock w"
  "closures (change w) = closures w"
  "state_listeners (change w) = state_listeners w"
  "membersChangedListener (change w) = membersChangedListener w"
  "groupPath (change w) = groupPath w"
  "timeout (change w) = timeout w"
  "setupTimeout (change w) = setupTimeout w"
  unfolding change_def
  by (rule foldl_invoke_induct; simp)+

lemma state_change_fields [simp]:
  "heap (state_change name w) = heap w"
  "clock (state_change name w) = clock w"
  "closures (state_change name w) = closures w"
  "state_listeners (state_change name w) = state_listeners w"
  "membersChangedListener (state_change name w) = membersChangedListener w"
  "groupPath (state_change name w) = groupPath w"
  "timeout (state_change name w) = timeout w"
  "setupTimeout (state_change name w) = setupTimeout w"
  unfolding state_change_def
  by (rule foldl_invoke_induct; simp)+

lemma change_no_watches: "watches w = [] \<Longrightarrow> change w = w"
  by (simp add: change_def)

lemma state_change_no_listeners: "state_listeners w = [] \<Longrightarrow> state_change name w = w"
  by (simp add: state_change_def)

lemma clock_step [simp]: "clock (step pf w x) = clock w + fst x"
proof (cases "snd x")
  case (RegisterMember given dref uuid)
  then show ?thesis
    by (cases "data_param dref (w\<lparr>clock := clock w + fst x\<rparr>)")
       (auto simp: step_def registerMember_none registerMember_fields)
next
  case StartMonitor
  then show ?thesis
    by (cases "membersChangedListener w")
       (simp_all add: step_def startMonitor_installed startMonitor_fresh)
qed (simp_all add: step_def)

section \<open>Runs\<close>

lemma run_append: "run pf w (xs @ ys) = run pf (run pf w xs) ys"
  by (induction xs arbitrary: w) simp_all

lemma unmonitored_constructor: "unmonitored (constructor gp t st)"
  by (simp add: unmonitored_def constructor_def)

lemma unmonitored_step:
  assumes "unmonitored w" "snd x \<noteq> StartMonitor"
  shows "unmonitored (step pf w x)"
proof (cases "snd x")
  case (RegisterMember given dref uuid)
  then show ?thesis using assms(1)
    by (cases "data_param dref (w\<lparr>clock := clock w + fst x\<rparr>)")
       (auto simp: step_def registerMember_none registerMember_fields unmonitored_def)
next
  case StartMonitor
  with assms(2) show ?thesis by simp
next
  case Change
  then show ?thesis using assms(1)
    by (simp add: step_def change_no_watches unmonitored_def)
next
  case (StateChange name)
  then show ?thesis using assms(1)
    by (simp add: step_def state_change_no_listeners unmonitored_def)
qed (use assms(1) in \<open>simp_all add: step_def unmonitored_def\<close>)

lemma unmonitored_run:
  "unmonitored w \<Longrightarrow> StartMonitor \<notin> snd ` set xs \<Longrightarrow> unmonitored (run pf w xs)"
  by (induction xs arbitrary: w) (auto simp: unmonitored_step)

text \<open>The \<open>k\<close>-th promise stays in place, and keeps whatever events keep.\<close>

lemma op_at_append:
  "op_at w k P \<Longrightarrow> ops w' = ops w @ ys \<Longrightarrow> op_at w' k P"
  by (simp add: op_at_def nth_append)

lemma op_at_relay: "op_at w k P \<Longrightarrow> op_at (relay w) k P"
  by (erule op_at_append) simp

lemma op_at_invoke: "op_at w k P \<Longrightarrow> op_at (invoke f name w) k P"
  using invoke_cases[of f name w] by (auto simp: op_at_relay) (simp add: op_at_def)

lemma op_at_deliver_op:
  assumes "op_at w k P" "\<And>kind tp. P kind tp \<Longrightarrow> P kind (deliver (clock w) ev tp)"
  shows "op_at (deliver_op j ev w) k P"
proof (cases "j = k")
  case True
  with assms show ?thesis
    by (auto simp: op_at_def deliver_op_ops split: operation.splits)
next
  case False
  with assms(1) show ?thesis
    by (auto simp: op_at_def deliver_op_ops split: operation.splits)
qed

lemma op_at_step:
  assumes "op_at w k P" "\<And>kind tp now ev. P kind tp \<Longrightarrow> P kind (deliver now ev tp)"
  shows "op_at (step pf w x) k P"
proof -
  let ?w = "w\<lparr>clock := clock w + fst x\<rparr>"
  have w: "op_at ?w k P" using assms(1) by (simp add: op_at_def)
  show ?thesis
  proof (cases "snd x")
    case Setup
    then show ?thesis using w by (auto simp: step_def elim: op_at_append)
  next
    case GetMembers
    then show ?thesis using w by (auto simp: step_def elim: op_at_append)
  next
    case StartMonitor
    then show ?thesis using w
      by (cases "membersChangedListener w")
         (auto simp: step_def startMonitor_installed startMonitor_fresh elim: op_at_append)
  next
    case (RegisterMember given dref uuid)
    then show ?thesis using w
      by (cases "data_param dref ?w")
         (auto simp: step_def registerMember_none registerMember_fields elim: op_at_append)
  next
    case (GetMemberData mid)
    then show ?thesis using w by (auto simp: step_def elim: op_at_append)
  next
    case (Alloc d)
    then show ?thesis using w by (simp add: step_def op_at_def)
  next
    case (Respond j a)
    then show ?thesis using w assms(2) by (simp add: step_def op_at_deliver_op)
  next
    case (TimerFire j)
    then show ?thesis using w assms(2) by (simp add: step_def op_at_deliver_op)
  next
    case Change
    have "op_at (?w\<lparr>watches := []\<rparr>) k P"
      using w by (simp add: op_at_def)
    then have "op_at (change ?w) k P"
      unfolding change_def
      by (rule foldl_invoke_induct) (simp add: op_at_invoke)
    with Change show ?thesis by (simp add: step_def)
  next
    case (StateChange name)
    have "op_at (state_change name ?w) k P"
      unfolding state_change_def
      by (rule foldl_invoke_induct) (use w in \<open>simp_all add: op_at_invoke\<close>)
    with StateChange show ?thesis by (simp add: step_def)
  qed
qed

lemma op_at_run:
  assumes "op_at w k P" "\<And>kind tp now ev. P kind tp \<Longrightarrow> P kind (deliver now ev tp)"
  shows "op_at (run pf w xs) k P"
  using assms(1) by (induction xs arbitrary: w) (simp_all add: op_at_step assms(2))

lemma coherent_fresh: "coherent (timedPromiseByCallback now [] tmo array)"
  by (simp add: coherent_def own_outcome_def)

lemma coherent_deliver: "coherent tp \<Longrightarrow> coherent (deliver now ev tp)"
  by (cases "raced tp"; cases "inner tp")
     (auto simp: coherent_def deliver_def Let_def reject_def verdict_settled
        resolverAsCallback_Pending resolverAsCallback_settled split: tevent.splits option.splits)

lemma deliver_callback_result:
  "coherent tp \<Longrightarrow> result tp = Pending \<Longrightarrow>
     result (deliver now (Callback a) tp) = verdict (as_array tp) a"
  by (auto simp: coherent_def result_def deliver_def Let_def resolverAsCallback_Pending
        split: option.splits)


lemma continuation_settled: "continuation pf kind v \<noteq> Pending"
  by (cases "(pf, kind, v)" rule: continuation.cases) (auto split: sum.splits)

lemma promise_of_Pending:
  "promise_of pf x = Pending \<longleftrightarrow> (\<exists>kind tp. x = Call kind tp \<and> result tp = Pending)"
  by (cases x) (auto simp: promise_of_def continuation_settled split: promise.splits)

section \<open>Answers of the client\<close>

lemma result_fresh [simp]: "result (timedPromiseByCallback now [] tmo b) = Pending"
  by (simp add: result_def own_outcome_def split: option.splits)

lemma promise_of_fresh [simp]:
  "promise_of pf (Call K (timedPromiseByCallback now [] tmo b)) = Pending"
  by (simp add: promise_of_def)

lemma respond_result:
  assumes "op_at w k (\<lambda>kind tp. coherent tp \<and> kind = K \<and> as_array tp = b)"
    and "promise_of pf (ops w ! k) = Pending"
  shows "\<exists>tp'. ops (step pf w (dt, Respond k a)) ! k = Call K tp' \<and> result tp' = verdict b a"
proof -
  from assms obtain tp where tp: "k < length (ops w)" "ops w ! k = Call K tp" "coherent tp"
      "as_array tp = b" "result tp = Pending"
    by (auto simp: op_at_def promise_of_Pending split: operation.splits)
  then show ?thesis
    by (simp add: step_def deliver_op_ops deliver_callback_result)
qed

lemma respond_promise:
  assumes "op_at w k (\<lambda>kind tp. coherent tp \<and> kind = K \<and> as_array tp = b)"
    and "promise_of pf (ops w ! k) = Pending"
  shows "promise_of pf (ops (step pf w (dt, Respond k a)) ! k) =
           (case err a of
              Some e \<Rightarrow> Rejected e
            | None \<Rightarrow> continuation pf K (if b then Arr (vals a) else first_value (vals a)))"
  using respond_result[OF assms, of dt a]
  by (auto simp: promise_of_def verdict_cases split: option.splits)

lemma fresh_op_at:
  "ops w' = ops w @ [Call K (timedPromiseByCallback now [] tmo b)]
     \<Longrightarrow> op_at w' (length (ops w)) (\<lambda>kind tp. coherent tp \<and> kind = K \<and> as_array tp = b)"
  by (simp add: op_at_def coherent_fresh)

lemma kept_by_deliver:
  "coherent tp \<and> kind = K \<and> as_array tp = b
     \<Longrightarrow> coherent (deliver now ev tp) \<and> kind = K \<and> as_array (deliver now ev tp) = b"
  by (simp add: coherent_deliver)

lemma respond_after_run:
  assumes "ops w1 = ops w @ [Call K (timedPromiseByCallback now [] tmo b)]"
    and "promise_of pf (ops (run pf w1 xs) ! length (ops w)) = Pending"
  shows "promise_of pf (ops (step pf (run pf w1 xs) (dt, Respond (length (ops w)) a)) ! length (ops w))
           = (case err a of
                Some e \<Rightarrow> Rejected e
              | None \<Rightarrow> continuation pf K (if b then Arr (vals a) else first_value (vals a)))"
proof -
  have "op_at (run pf w1 xs) (length (ops w))
          (\<lambda>kind tp. coherent tp \<and> kind = K \<and> as_array tp = b)"
    by (rule op_at_run[OF fresh_op_at[OF assms(1)]]) (rule kept_by_deliver)
  then show ?thesis using assms(2) by (rule respond_promise)
qed

text \<open>
  Claim C4, as stated, fails: no method wraps the client's failure. Below \<open>setup()\<close>
  is called on a fresh instance with no timeouts and the client answers \<open>mkdirp\<close>
  with the failure \<open>NO_AUTH\<close>; the promise of \<open>setup()\<close> is rejected with that very
  value, the raw collaborator error.
\<close>

theorem collaborator_error_counterexample:
  "promise_of example_platform
     (ops (run example_platform (constructor None None None)
             [(0, Setup), (3, Respond 0 \<lparr>err = Some (External ''NO_AUTH''), vals = []\<rparr>)]) ! 0)
   = Rejected (External ''NO_AUTH'')"
  by (simp add: constructor_def step_def setup_group_def new_op_def client_call_def
        deliver_op_def timedPromiseByCallback_def withTimeout_def deliver_def Let_def
        resolverAsCallback_def reject_def promise_of_def result_def)

text \<open>
  Claim C4, amended. When the client invokes the callback of an operation with an error
  while the promise of the operation is still pending (so no timeout has rejected it),
  the promise returned by \<open>setup()\<close>, \<open>getMembers()\<close>, \<open>registerMember()\<close> (legal
  id) and \<open>getMemberData()\<close> (legal id) is rejected with that error itself, unwrapped,
  whatever happened to the instance in between (\<open>xs\<close>).
\<close>

theorem collaborator_error_passed_on:
  "(promise_of pf (ops (run pf (setup_group w) xs) ! length (ops w)) = Pending \<longrightarrow>
      promise_of pf (ops (step pf (run pf (setup_group w) xs)
          (dt, Respond (length (ops w)) \<lparr>err = Some e, vals = vs\<rparr>)) ! length (ops w))
        = Rejected e)
   \<and> (promise_of pf (ops (run pf (getMembers w) xs) ! length (ops w)) = Pending \<longrightarrow>
      promise_of pf (ops (step pf (run pf (getMembers w) xs)
          (dt, Respond (length (ops w)) \<lparr>err = Some e, vals = vs\<rparr>)) ! length (ops w))
        = Rejected e)
   \<and> (data_param dref w \<noteq> None \<and> CHR ''/'' \<notin> set (coerce_id pf (default_id given uuid))
       \<and> promise_of pf (ops (run pf (registerMember pf given dref uuid w) xs) ! length (ops w))
           = Pending \<longrightarrow>
      promise_of pf (ops (step pf (run pf (registerMember pf given dref uuid w) xs)
          (dt, Respond (length (ops w)) \<lparr>err = Some e, vals = vs\<rparr>)) ! length (ops w))
        = Rejected e)
   \<and> (CHR ''/'' \<notin> set (coerce_id pf mid)
       \<and> promise_of pf (ops (run pf (getMemberData pf mid w) xs) ! length (ops w)) = Pending \<longrightarrow>
      promise_of pf (ops (step pf (run pf (getMemberData pf mid w) xs)
          (dt, Respond (length (ops w)) \<lparr>err = Some e, vals = vs\<rparr>)) ! length (ops w))
        = Rejected e)"
proof (intro conjI impI)
  let ?a = "\<lparr>err = Some e, vals = vs\<rparr>"
  show "promise_of pf (ops (step pf (run pf (setup_group w) xs)
          (dt, Respond (length (ops w)) ?a)) ! length (ops w)) = Rejected e"
    if "promise_of pf (ops (run pf (setup_group w) xs) ! length (ops w)) = Pending"
    using respond_after_run[OF _ that, of _ _ _ _ dt ?a] by simp
  show "promise_of pf (ops (step pf (run pf (getMembers w) xs)
          (dt, Respond (length (ops w)) ?a)) ! length (ops w)) = Rejected e"
    if "promise_of pf (ops (run pf (getMembers w) xs) ! length (ops w)) = Pending"
    using respond_after_run[OF _ that, of _ _ _ _ dt ?a] by simp
  show "promise_of pf (ops (step pf (run pf (registerMember pf given dref uuid w) xs)
          (dt, Respond (length (ops w)) ?a)) ! length (ops w)) = Rejected e"
    if h: "data_param dref w \<noteq> None \<and> CHR ''/'' \<notin> set (coerce_id pf (default_id given uuid))
       \<and> promise_of pf (ops (run pf (registerMember pf given dref uuid w) xs) ! length (ops w))
           = Pending"
  proof -
    from h obtain r w0 where d: "data_param dref w = Some (r, w0)" by auto
    from h have p: "promise_of pf (ops (run pf (registerMember pf given dref uuid w) xs)
        ! length (ops w)) = Pending" by simp
    show ?thesis
      using respond_after_run[OF _ p, of _ _ _ _ dt ?a] h
      by (simp add: registerMember_fields[OF d])
  qed
  show "promise_of pf (ops (step pf (run pf (getMemberData pf mid w) xs)
          (dt, Respond (length (ops w)) ?a)) ! length (ops w)) = Rejected e"
    if h: "CHR ''/'' \<notin> set (coerce_id pf mid)
       \<and> promise_of pf (ops (run pf (getMemberData pf mid w) xs) ! length (ops w)) = Pending"
  proof -
    from h have p: "promise_of pf (ops (run pf (getMemberData pf mid w) xs) ! length (ops w))
      = Pending" by simp
    show ?thesis
      using respond_after_run[OF _ p, of _ _ _ _ dt ?a] h by simp
  qed
qed

theorem collaborator_error_passed_on_witness:
  "promise_of example_platform
      (ops (run example_platform (setup_group (constructor None None None)) []) ! 0) = Pending
   \<and> promise_of example_platform
      (ops (step example_platform (run example_platform (setup_group (constructor None None None)) [])
          (1, Respond 0 \<lparr>err = Some (External ''NO_AUTH''), vals = []\<rparr>)) ! 0)
        = Rejected (External ''NO_AUTH'')
   \<and> promise_of example_platform
      (ops (run example_platform (getMembers (constructor None None None)) []) ! 0) = Pending
   \<and> promise_of example_platform
      (ops (step example_platform (run example_platform (getMembers (constructor None None None)) [])
          (1, Respond 0 \<lparr>err = Some (External ''NO_AUTH''), vals = []\<rparr>)) ! 0)
        = Rejected (External ''NO_AUTH'')
   \<and> data_param None (constructor None None None) \<noteq> None
   \<and> CHR ''/'' \<notin> set (coerce_id example_platform (default_id (Str ''node-a'') ''u''))
   \<and> promise_of example_platform
      (ops (run example_platform
         (registerMember example_platform (Str ''node-a'') None ''u'' (constructor None None None))
         []) ! 0) = Pending
   \<and> promise_of example_platform
      (ops (step example_platform (run example_platform
         (registerMember example_platform (Str ''node-a'') None ''u'' (constructor None None None))
         []) (1, Respond 0 \<lparr>err = Some (External ''NO_AUTH''), vals = []\<rparr>)) ! 0)
        = Rejected (External ''NO_AUTH'')
   \<and> promise_of example_platform
      (ops (run example_platform
         (getMemberData example_platform (Str ''node-a'') (constructor None None None)) []) ! 0)
        = Pending
   \<and> promise_of example_platform
      (ops (step example_platform (run example_platform
         (getMemberData example_platform (Str ''node-a'') (constructor None None None)) [])
         (1, Respond 0 \<lparr>err = Some (External ''NO_AUTH''), vals = []\<rparr>)) ! 0)
        = Rejected (External ''NO_AUTH'')"
proof -
  let ?w = "constructor None None None"
  have w: "length (ops ?w) = 0" "ops ?w = []"
    by (simp_all add: constructor_def)
  have d: "data_param None ?w = Some (0, ?w\<lparr>heap := heap ?w @ [[]]\<rparr>)"
    by (simp add: data_param_def constructor_def)
  have legal: "CHR ''/'' \<notin> set (coerce_id example_platform (default_id (Str ''node-a'') ''u''))"
      "CHR ''/'' \<notin> set (coerce_id example_platform (Str ''node-a''))"
    by (simp_all add: coerce_id_def default_id_def)
  have pending:
    "promise_of example_platform (ops (run example_platform (setup_group ?w) []) ! 0) = Pending"
    "promise_of example_platform (ops (run example_platform (getMembers ?w) []) ! 0) = Pending"
    "promise_of example_platform (ops (run example_platform
         (registerMember example_platform (Str ''node-a'') None ''u'' ?w) []) ! 0) = Pending"
    "promise_of example_platform (ops (run example_platform
         (getMemberData example_platform (Str ''node-a'') ?w) []) ! 0) = Pending"
    using legal by (simp_all add: w registerMember_fields[OF d])
  show ?thesis
    using pending legal d w
      collaborator_error_passed_on [where pf = example_platform and w = ?w and xs = "[]"
        and dt = 1 and e = "External ''NO_AUTH''" and vs = "[]" and given = "Str ''node-a''"
        and dref = None and uuid = "''u''" and mid = "Str ''node-a''"]
    by simp
qed

text \<open>The definitions to unfold when a concrete run is evaluated.\<close>

lemmas eval_defs =
  constructor_def step_def setup_group_def getMembers_def relay_def startMonitor_def
  registerMember_def getMemberData_def data_param_def default_id_def coerce_id_def
  getMemberPath_eq falsy_path_def new_op_def client_call_def emit_def deliver_op_def
  invoke_def change_def state_change_def timedPromiseByCallback_def withTimeout_def
  deliver_def timer_delay_def TIMEOUT_MAX_def resolverAsCallback_def resolve_def reject_def
  first_value_def result_def promise_of_def Let_def

section \<open>Before monitoring\<close>

lemma unmonitored_calls:
  "unmonitored w \<Longrightarrow> GetChildren p f \<in> set (calls w) \<Longrightarrow> f = None"
  by (auto simp: unmonitored_def list_all_iff split: client_call.splits)

text \<open>
  Claim C10. The constructor sets the relay field to null, and as long as
  \<open>startMonitor()\<close> has not been called it stays null: whatever else is done with the
  instance, every \<open>getChildren\<close> call in the log was given a null watcher and the
  client holds no watch. \<open>getMembers()\<close> passes the relay field as it is at the
  call, so it arms a watch exactly when the field is set.
\<close>

theorem no_watch_before_startMonitor:
  "membersChangedListener (constructor gp t st) = None
   \<and> (StartMonitor \<notin> snd ` set xs \<longrightarrow>
        membersChangedListener (run pf (constructor gp t st) xs) = None
        \<and> watches (run pf (constructor gp t st) xs) = []
        \<and> (\<forall>p f. GetChildren p f \<in> set (calls (run pf (constructor gp t st) xs)) \<longrightarrow> f = None))
   \<and> calls (getMembers w) = calls w @ [GetChildren (groupPath w) (membersChangedListener w)]
   \<and> (watches (getMembers w) \<noteq> watches w \<longleftrightarrow> membersChangedListener w \<noteq> None)"
proof -
  have "unmonitored (run pf (constructor gp t st) xs)" if "StartMonitor \<notin> snd ` set xs"
    using unmonitored_constructor that by (rule unmonitored_run)
  then show ?thesis
    by (auto simp: unmonitored_calls constructor_def split: option.splits)
       (simp_all add: unmonitored_def)
qed

theorem no_watch_before_startMonitor_witness:
  "StartMonitor \<notin> snd ` set [(0::nat, Setup), (1, GetMembers), (1, Change), (2, GetMembers)]
   \<and> membersChangedListener (run example_platform (constructor None None None)
        [(0, Setup), (1, GetMembers), (1, Change), (2, GetMembers)]) = None
   \<and> watches (run example_platform (constructor None None None)
        [(0, Setup), (1, GetMembers), (1, Change), (2, GetMembers)]) = []
   \<and> calls (run example_platform (constructor None None None)
        [(0, Setup), (1, GetMembers), (1, Change), (2, GetMembers)])
      = [Mkdirp ''/groups/default'', GetChildren ''/groups/default'' None,
         GetChildren ''/groups/default'' None]
   \<and> watches (getMembers (startMonitor (constructor None None None)))
      \<noteq> watches (startMonitor (constructor None None None))"
proof -
  let ?xs = "[(0, Setup), (1, GetMembers), (1, Change), (2::nat, GetMembers)]"
  have h: "StartMonitor \<notin> snd ` set ?xs" by simp
  have c: "calls (run example_platform (constructor None None None) ?xs)
      = [Mkdirp ''/groups/default'', GetChildren ''/groups/default'' None,
         GetChildren ''/groups/default'' None]"
    by (simp add: eval_defs)
  have m: "membersChangedListener (startMonitor (constructor None None None)) \<noteq> None"
    by (simp add: eval_defs)
  note T = no_watch_before_startMonitor [where gp = None and t = None and st = None
        and xs = ?xs and pf = example_platform
        and w = "startMonitor (constructor None None None)"]
  from T h have a: "membersChangedListener (run example_platform (constructor None None None) ?xs) = None"
      "watches (run example_platform (constructor None None None) ?xs) = []"
    by blast+
  from T m have b: "watches (getMembers (startMonitor (constructor None None None)))
      \<noteq> watches (startMonitor (constructor None None None))"
    by blast
  from h a c b show ?thesis by (intro conjI)
qed

section \<open>Registration\<close>

text \<open>
  An object of the heap is only ever changed by \<open>registerMember\<close>, which sets its
  \<open>registrationTimeUTC\<close> to the clock.
\<close>

lemma heap_step:
  assumes "r < length (heap w)"
  shows "r < length (heap (step pf w x))
    \<and> (heap (step pf w x) ! r = heap w ! r
       \<or> heap (step pf w x) ! r
          = AList.update ''registrationTimeUTC'' (Num (int (clock w + fst x))) (heap w ! r))"
proof (cases "snd x")
  case (RegisterMember given dref uuid)
  let ?w = "w\<lparr>clock := clock w + fst x\<rparr>"
  show ?thesis
  proof (cases "data_param dref ?w")
    case None
    with RegisterMember assms show ?thesis by (simp add: step_def registerMember_none)
  next
    case (Some a)
    obtain r' w0 where a: "a = (r', w0)" by (cases a)
    from data_param_fields[OF Some[unfolded a]] assms
    have h: "r < length (heap w0)" "heap w0 ! r = heap w ! r" "clock ?w = clock w + fst x"
      by (auto simp: nth_append split: option.splits)
    show ?thesis
      using RegisterMember h
      by (cases "r = r'")
         (auto simp: step_def registerMember_fields(3)[OF Some[unfolded a]])
  qed
next
  case StartMonitor
  then show ?thesis using assms
    by (cases "membersChangedListener w")
       (simp_all add: step_def startMonitor_installed startMonitor_fresh)
next
  case (Alloc d)
  then show ?thesis using assms by (simp add: step_def nth_append)
qed (use assms in \<open>simp_all add: step_def\<close>)

lemma stamp_step:
  assumes "r < length (heap w)"
    and "map_of (heap w ! r) ''registrationTimeUTC'' = Some (Num (int t))"
    and "t0 \<le> t" "t \<le> clock w"
  shows "r < length (heap (step pf w x))
    \<and> (\<exists>t'. map_of (heap (step pf w x) ! r) ''registrationTimeUTC'' = Some (Num (int t'))
            \<and> t0 \<le> t' \<and> t' \<le> clock (step pf w x))"
proof -
  from heap_step[OF assms(1), of pf x]
  have len: "r < length (heap (step pf w x))"
    and alt: "heap (step pf w x) ! r = heap w ! r
       \<or> heap (step pf w x) ! r
          = AList.update ''registrationTimeUTC'' (Num (int (clock w + fst x))) (heap w ! r)"
    by blast+
  from alt have "\<exists>t'. map_of (heap (step pf w x) ! r) ''registrationTimeUTC'' = Some (Num (int t'))
            \<and> t0 \<le> t' \<and> t' \<le> clock (step pf w x)"
  proof
    assume "heap (step pf w x) ! r = heap w ! r"
    with assms(2-4) show ?thesis by (intro exI[of _ t]) simp
  next
    assume "heap (step pf w x) ! r
          = AList.update ''registrationTimeUTC'' (Num (int (clock w + fst x))) (heap w ! r)"
    with assms(3,4) show ?thesis
      by (intro exI[of _ "clock w + fst x"]) (simp add: update_conv' del: of_nat_add)
  qed
  with len show ?thesis by blast
qed

lemma stamp_run:
  assumes "r < length (heap w)"
    and "map_of (heap w ! r) ''registrationTimeUTC'' = Some (Num (int t))"
    and "t0 \<le> t" "t \<le> clock w"
  shows "r < length (heap (run pf w xs))
    \<and> (\<exists>t'. map_of (heap (run pf w xs) ! r) ''registrationTimeUTC'' = Some (Num (int t'))
            \<and> t0 \<le> t' \<and> t' \<le> clock (run pf w xs))"
  using assms
proof (induction xs arbitrary: w t)
  case Nil
  then show ?case by auto
next
  case (Cons x xs)
  from stamp_step[OF Cons.prems, of pf x]
  obtain t' where "r < length (heap (step pf w x))"
      "map_of (heap (step pf w x) ! r) ''registrationTimeUTC'' = Some (Num (int t'))"
      "t0 \<le> t'" "t' \<le> clock (step pf w x)"
    by blast
  then show ?case using Cons.IH[of "step pf w x" t'] by simp
qed

text \<open>A successful registration, from the call to the answer.\<close>

lemma registerMember_legal:
  assumes d: "data_param dref w = Some (r, w0)"
    and legal: "CHR ''/'' \<notin> set (coerce_id pf (default_id given uuid))"
  defines "w1 \<equiv> registerMember pf given dref uuid w"
    and "d \<equiv> AList.update ''registrationTimeUTC'' (Num (int (clock w))) (heap w0 ! r)"
  shows "heap w1 = (heap w0)[r := d]"
    and "calls w1 = calls w @ [Create (groupPath w @ ''/'' @ coerce_id pf (default_id given uuid))
                                 (JSON_stringify pf d) ZK_CREATE_MODE_EPHEMERAL]"
    and "ops w1 = ops w @ [Call (RegisterOp (default_id given uuid) r)
                             (timedPromiseByCallback (clock w) [] (timeout w) False)]"
    and "promise_of pf (ops (run pf w1 xs) ! length (ops w)) = Pending \<Longrightarrow>
           promise_of pf (ops (step pf (run pf w1 xs)
               (dt, Respond (length (ops w)) \<lparr>err = None, vals = vs\<rparr>)) ! length (ops w))
             = Fulfilled (Member (default_id given uuid) r)"
    and "r < length (heap (run pf w1 xs))
         \<and> (\<exists>t. map_of (heap (run pf w1 xs) ! r) ''registrationTimeUTC'' = Some (Num (int t))
                \<and> clock w \<le> t \<and> t \<le> clock (run pf w1 xs))"
proof -
  show h: "heap w1 = (heap w0)[r := d]"
    using legal by (simp add: w1_def d_def registerMember_fields[OF d])
  show "calls w1 = calls w @ [Create (groupPath w @ ''/'' @ coerce_id pf (default_id given uuid))
                                 (JSON_stringify pf d) ZK_CREATE_MODE_EPHEMERAL]"
    using legal by (simp add: w1_def d_def registerMember_fields[OF d])
  show o: "ops w1 = ops w @ [Call (RegisterOp (default_id given uuid) r)
                             (timedPromiseByCallback (clock w) [] (timeout w) False)]"
    using legal by (simp add: w1_def registerMember_fields[OF d])
  show "promise_of pf (ops (step pf (run pf w1 xs)
               (dt, Respond (length (ops w)) \<lparr>err = None, vals = vs\<rparr>)) ! length (ops w))
             = Fulfilled (Member (default_id given uuid) r)"
    if "promise_of pf (ops (run pf w1 xs) ! length (ops w)) = Pending"
    using respond_after_run[OF o that, of dt "\<lparr>err = None, vals = vs\<rparr>"] by simp
  have r: "r < length (heap w0)" using data_param_fields[OF d] by blast
  have "r < length (heap w1)" "map_of (heap w1 ! r) ''registrationTimeUTC'' = Some (Num (int (clock w)))"
       "clock w1 = clock w"
    using r legal by (simp_all add: h d_def update_conv' w1_def registerMember_fields[OF d])
  then show "r < length (heap (run pf w1 xs))
         \<and> (\<exists>t. map_of (heap (run pf w1 xs) ! r) ''registrationTimeUTC'' = Some (Num (int t))
                \<and> clock w \<le> t \<and> t \<le> clock (run pf w1 xs))"
    using stamp_run[of r w1 "clock w" "clock w" pf xs] by simp
qed



text \<open>
  Claim C9. When the caller passes a data object (the reference \<open>r\<close>) and the id is
  legal, \<open>registerMember\<close> writes \<open>registrationTimeUTC\<close> into that very object: the
  heap is the old heap with object \<open>r\<close> updated in place, no object is added, and the
  promise is fulfilled with \<open>{id, data}\<close> where \<open>data\<close> is the same reference
  \<open>r\<close>; at that time the caller's object holds \<open>registrationTimeUTC\<close>.
\<close>

theorem registerMember_mutates_argument:
  "r < length (heap w) \<and> CHR ''/'' \<notin> set (coerce_id pf (default_id given uuid)) \<longrightarrow>
     heap (registerMember pf given (Some r) uuid w)
       = (heap w)[r := AList.update ''registrationTimeUTC'' (Num (int (clock w))) (heap w ! r)]
     \<and> ops (registerMember pf given (Some r) uuid w)
       = ops w @ [Call (RegisterOp (default_id given uuid) r)
                    (timedPromiseByCallback (clock w) [] (timeout w) False)]
     \<and> (promise_of pf (ops (run pf (registerMember pf given (Some r) uuid w) xs) ! length (ops w))
          = Pending \<longrightarrow>
         promise_of pf (ops (step pf (run pf (registerMember pf given (Some r) uuid w) xs)
             (dt, Respond (length (ops w)) \<lparr>err = None, vals = vs\<rparr>)) ! length (ops w))
           = Fulfilled (Member (default_id given uuid) r)
         \<and> r < length (heap (step pf (run pf (registerMember pf given (Some r) uuid w) xs)
             (dt, Respond (length (ops w)) \<lparr>err = None, vals = vs\<rparr>)))
         \<and> map_of (heap (step pf (run pf (registerMember pf given (Some r) uuid w) xs)
             (dt, Respond (length (ops w)) \<lparr>err = None, vals = vs\<rparr>)) ! r)
               ''registrationTimeUTC'' \<noteq> None)"
proof (intro impI)
  assume h: "r < length (heap w) \<and> CHR ''/'' \<notin> set (coerce_id pf (default_id given uuid))"
  then have d: "data_param (Some r) w = Some (r, w)"
    and legal: "CHR ''/'' \<notin> set (coerce_id pf (default_id given uuid))"
    by (simp_all add: data_param_def)
  let ?w1 = "registerMember pf given (Some r) uuid w"
  let ?x = "(dt, Respond (length (ops w)) \<lparr>err = None, vals = vs\<rparr>)"
  have "promise_of pf (ops (step pf (run pf ?w1 xs) ?x) ! length (ops w))
           = Fulfilled (Member (default_id given uuid) r)
         \<and> r < length (heap (step pf (run pf ?w1 xs) ?x))
         \<and> map_of (heap (step pf (run pf ?w1 xs) ?x) ! r) ''registrationTimeUTC'' \<noteq> None"
    if p: "promise_of pf (ops (run pf ?w1 xs) ! length (ops w)) = Pending"
    using registerMember_legal(4)[OF d legal p, of dt vs]
      registerMember_legal(5)[OF d legal, of "xs @ [?x]"]
    by (auto simp: run_append)
  then show "heap ?w1
       = (heap w)[r := AList.update ''registrationTimeUTC'' (Num (int (clock w))) (heap w ! r)]
     \<and> ops ?w1 = ops w @ [Call (RegisterOp (default_id given uuid) r)
                    (timedPromiseByCallback (clock w) [] (timeout w) False)]
     \<and> (promise_of pf (ops (run pf ?w1 xs) ! length (ops w)) = Pending \<longrightarrow>
         promise_of pf (ops (step pf (run pf ?w1 xs) ?x) ! length (ops w))
           = Fulfilled (Member (default_id given uuid) r)
         \<and> r < length (heap (step pf (run pf ?w1 xs) ?x))
         \<and> map_of (heap (step pf (run pf ?w1 xs) ?x) ! r) ''registrationTimeUTC'' \<noteq> None)"
    using registerMember_legal(1)[OF d legal] registerMember_legal(3)[OF d legal]
    by blast
qed


theorem registerMember_mutates_argument_witness:
  "0 < length (heap (step example_platform (constructor (Some ''/groups/demo'') None None)
                  (12, Alloc [(''weight'', Num 1)])))
   \<and> CHR ''/'' \<notin> set (coerce_id example_platform (default_id (Str ''node-a'') ''u''))
   \<and> heap (registerMember example_platform (Str ''node-a'') (Some 0) ''u''
        (step example_platform (constructor (Some ''/groups/demo'') None None)
           (12, Alloc [(''weight'', Num 1)])))
      = [[(''weight'', Num 1), (''registrationTimeUTC'', Num 12)]]
   \<and> promise_of example_platform
        (ops (run example_platform
           (registerMember example_platform (Str ''node-a'') (Some 0) ''u''
              (step example_platform (constructor (Some ''/groups/demo'') None None)
                 (12, Alloc [(''weight'', Num 1)]))) []) ! 0) = Pending
   \<and> promise_of example_platform
        (ops (step example_platform (run example_platform
           (registerMember example_platform (Str ''node-a'') (Some 0) ''u''
              (step example_platform (constructor (Some ''/groups/demo'') None None)
                 (12, Alloc [(''weight'', Num 1)]))) [])
           (3, Respond 0 \<lparr>err = None, vals = [Str ''/groups/demo/node-a'']\<rparr>)) ! 0)
      = Fulfilled (Member (Str ''node-a'') 0)
   \<and> map_of (heap (step example_platform (run example_platform
           (registerMember example_platform (Str ''node-a'') (Some 0) ''u''
              (step example_platform (constructor (Some ''/groups/demo'') None None)
                 (12, Alloc [(''weight'', Num 1)]))) [])
           (3, Respond 0 \<lparr>err = None, vals = [Str ''/groups/demo/node-a'']\<rparr>)) ! 0)
        ''registrationTimeUTC'' \<noteq> None"
proof -
  let ?w = "step example_platform (constructor (Some ''/groups/demo'') None None)
              (12, Alloc [(''weight'', Num 1)])"
  let ?w1 = "registerMember example_platform (Str ''node-a'') (Some 0) ''u'' ?w"
  let ?x = "(3::nat, Respond 0 \<lparr>err = None, vals = [Str ''/groups/demo/node-a'']\<rparr>)"
  note T = registerMember_mutates_argument [where r = 0 and w = ?w and pf = example_platform
      and given = "Str ''node-a''" and uuid = "''u''" and xs = "[]" and dt = 3
      and vs = "[Str ''/groups/demo/node-a'']"]
  have w: "length (ops ?w) = 0" "clock ?w = 12" "heap ?w = [[(''weight'', Num 1)]]"
    by (simp_all add: constructor_def step_def)
  have r: "0 < length (heap ?w)" by (simp add: w)
  have legal: "CHR ''/'' \<notin> set (coerce_id example_platform (default_id (Str ''node-a'') ''u''))"
    by (simp add: default_id_def coerce_id_def)
  have p: "promise_of example_platform (ops (run example_platform ?w1 []) ! 0) = Pending"
    by (simp add: eval_defs)
  from T r legal
  have "heap ?w1
      = (heap ?w)[0 := AList.update ''registrationTimeUTC'' (Num (int (clock ?w))) (heap ?w ! 0)]"
    by blast
  then have a: "heap ?w1 = [[(''weight'', Num 1), (''registrationTimeUTC'', Num 12)]]"
    by (simp add: constructor_def step_def)
  have p': "promise_of example_platform (ops (run example_platform ?w1 []) ! length (ops ?w))
      = Pending"
    using p by (simp only: w(1))
  from T r legal p'
  have "promise_of example_platform
          (ops (step example_platform (run example_platform ?w1 [])
             (3, Respond (length (ops ?w)) \<lparr>err = None, vals = [Str ''/groups/demo/node-a'']\<rparr>))
             ! length (ops ?w))
        = Fulfilled (Member (default_id (Str ''node-a'') ''u'') 0)
      \<and> map_of (heap (step example_platform (run example_platform ?w1 [])
             (3, Respond (length (ops ?w)) \<lparr>err = None, vals = [Str ''/groups/demo/node-a'']\<rparr>))
             ! 0) ''registrationTimeUTC'' \<noteq> None"
    by blast
  then have b: "promise_of example_platform
          (ops (step example_platform (run example_platform ?w1 []) ?x) ! 0)
        = Fulfilled (Member (Str ''node-a'') 0)"
    and c: "map_of (heap (step example_platform (run example_platform ?w1 []) ?x) ! 0)
        ''registrationTimeUTC'' \<noteq> None"
    by (simp_all add: default_id_def constructor_def step_def)
  from r legal a p b c show ?thesis by (intro conjI)
qed

section \<open>The relay\<close>

lemma rearmed_refl: "membersChangedListener w = Some r \<Longrightarrow> rearmed r w w"
  by (simp add: rearmed_def)

lemma rearmed_trans: "rearmed r w w' \<Longrightarrow> rearmed r w' w'' \<Longrightarrow> rearmed r w w''"
  by (auto simp: rearmed_def)

lemma rearmed_calls:
  "membersChangedListener w' = Some r \<Longrightarrow> calls w' = calls w @ new
     \<Longrightarrow> (\<forall>p f. GetChildren p f \<in> set new \<longrightarrow> f = Some r) \<Longrightarrow> rearmed r w w'"
  by (auto simp: rearmed_def)

lemma rearmed_relay: "membersChangedListener w = Some r \<Longrightarrow> rearmed r w (relay w)"
  by (rule rearmed_calls[where new = "[GetChildren (groupPath w) (Some r)]"]) simp_all

lemma rearmed_invoke:
  assumes "membersChangedListener w = Some r"
  shows "rearmed r w (invoke f name w)"
  using invoke_cases[of f name w] assms
  by (auto simp: rearmed_relay rearmed_refl)
     (rule rearmed_calls[where new = "[]"]; simp)

lemma rearmed_foldl_invoke:
  assumes "membersChangedListener w = Some r"
  shows "rearmed r w (foldl (\<lambda>w f. invoke f name w) w fs)"
  using assms
proof (induction fs arbitrary: w)
  case Nil
  then show ?case by (simp add: rearmed_refl)
next
  case (Cons f fs)
  have 1: "rearmed r w (invoke f name w)" by (rule rearmed_invoke[OF Cons.prems])
  then have "membersChangedListener (invoke f name w) = Some r" by (simp add: rearmed_def)
  from Cons.IH[OF this] 1 show ?case by (auto intro: rearmed_trans)
qed

lemma rearmed_step:
  assumes "membersChangedListener w = Some r"
  shows "rearmed r w (step pf w x)"
proof -
  let ?w = "w\<lparr>clock := clock w + fst x\<rparr>"
  have c: "calls ?w = calls w" "membersChangedListener ?w = Some r"
    using assms by simp_all
  show ?thesis
  proof (cases "snd x")
    case Setup
    then show ?thesis using assms
      by (intro rearmed_calls[where new = "[Mkdirp (groupPath w)]"]) (simp_all add: step_def)
  next
    case GetMembers
    then show ?thesis using assms
      by (intro rearmed_calls[where new = "[GetChildren (groupPath w) (Some r)]"])
         (simp_all add: step_def)
  next
    case StartMonitor
    then show ?thesis using assms
      by (intro rearmed_calls[where new = "[]"]) (simp_all add: step_def startMonitor_installed)
  next
    case (RegisterMember given dref uuid)
    show ?thesis
    proof (cases "data_param dref ?w")
      case None
      with RegisterMember assms show ?thesis
        by (intro rearmed_calls[where new = "[]"]) (simp_all add: step_def registerMember_none)
    next
      case (Some a)
      obtain r' w0 where a: "a = (r', w0)" by (cases a)
      note f = registerMember_fields[OF Some[unfolded a], of pf given uuid]
      from RegisterMember assms show ?thesis
        by (intro rearmed_calls[where new = "if CHR ''/'' \<in> set (coerce_id pf (default_id given uuid))
              then [] else [Create (groupPath w @ ''/'' @ coerce_id pf (default_id given uuid))
                 (JSON_stringify pf (AList.update ''registrationTimeUTC''
                    (Num (int (clock ?w))) (heap w0 ! r'))) ZK_CREATE_MODE_EPHEMERAL]"])
           (simp_all add: step_def f)
    qed
  next
    case (GetMemberData mid)
    then show ?thesis using assms
      by (intro rearmed_calls[where new = "if CHR ''/'' \<in> set (coerce_id pf mid) then []
              else [GetData (groupPath w @ ''/'' @ coerce_id pf mid)]"])
         (simp_all add: step_def)
  next
    case (Alloc d)
    then show ?thesis using assms
      by (intro rearmed_calls[where new = "[]"]) (simp_all add: step_def)
  next
    case (Respond k a)
    then show ?thesis using assms
      by (intro rearmed_calls[where new = "[]"]) (simp_all add: step_def)
  next
    case (TimerFire k)
    then show ?thesis using assms
      by (intro rearmed_calls[where new = "[]"]) (simp_all add: step_def)
  next
    case Change
    have "rearmed r (?w\<lparr>watches := []\<rparr>) (change ?w)"
      unfolding change_def by (rule rearmed_foldl_invoke) (simp add: assms)
    with Change show ?thesis by (simp add: step_def rearmed_def)
  next
    case (StateChange name)
    have "rearmed r ?w (state_change name ?w)"
      unfolding state_change_def by (rule rearmed_foldl_invoke) (simp add: assms)
    with StateChange show ?thesis by (simp add: step_def rearmed_def)
  qed
qed

lemma rearmed_run:
  "membersChangedListener w = Some r \<Longrightarrow> rearmed r w (run pf w xs)"
proof (induction xs arbitrary: w)
  case Nil
  then show ?case by (simp add: rearmed_refl)
next
  case (Cons x xs)
  have 1: "rearmed r w (step pf w x)" by (rule rearmed_step[OF Cons.prems])
  then have "membersChangedListener (step pf w x) = Some r" by (simp add: rearmed_def)
  from Cons.IH[OF this] 1 show ?case by (auto intro: rearmed_trans)
qed

text \<open>Subscriptions of the relay are never dropped.\<close>

lemma subscribed_invoke: "k \<in> set (subscribed w) \<Longrightarrow> k \<in> set (subscribed (invoke f name w))"
  using invoke_cases[of f name w] by auto

lemma subscribed_step: "k \<in> set (subscribed w) \<Longrightarrow> k \<in> set (subscribed (step pf w x))"
proof (cases "snd x")
  case StartMonitor
  assume "k \<in> set (subscribed w)"
  with StartMonitor show ?thesis
    by (cases "membersChangedListener w")
       (simp_all add: step_def startMonitor_installed startMonitor_fresh)
next
  case (RegisterMember given dref uuid)
  assume "k \<in> set (subscribed w)"
  with RegisterMember show ?thesis
    by (cases "data_param dref (w\<lparr>clock := clock w + fst x\<rparr>)")
       (auto simp: step_def registerMember_none registerMember_fields)
next
  case Change
  assume k: "k \<in> set (subscribed w)"
  let ?w = "w\<lparr>clock := clock w + fst x\<rparr>"
  have "k \<in> set (subscribed (?w\<lparr>watches := []\<rparr>))" using k by simp
  then have "k \<in> set (subscribed (change ?w))"
    unfolding change_def by (rule foldl_invoke_induct) (rule subscribed_invoke)
  with Change show ?thesis by (simp add: step_def)
next
  case (StateChange name)
  assume k: "k \<in> set (subscribed w)"
  let ?w = "w\<lparr>clock := clock w + fst x\<rparr>"
  have "k \<in> set (subscribed ?w)" using k by simp
  then have "k \<in> set (subscribed (state_change name ?w))"
    unfolding state_change_def by (rule foldl_invoke_induct) (rule subscribed_invoke)
  with StateChange show ?thesis by (simp add: step_def)
qed (simp_all add: step_def)

lemma subscribed_run: "k \<in> set (subscribed w) \<Longrightarrow> k \<in> set (subscribed (run pf w xs))"
  by (induction xs arbitrary: w) (simp_all add: subscribed_step)

text \<open>What the relay emits when its fetch settles.\<close>

lemma deliver_timer_result:
  "coherent tp \<Longrightarrow> result tp = Pending \<Longrightarrow> timer tp = Some d \<Longrightarrow> created tp + d \<le> now
     \<Longrightarrow> result (deliver now TimerFired tp) = Rejected (Error ''Timeout'')"
  using timer_delay_le[of d] by (auto simp: coherent_def result_def deliver_def reject_def)

lemma emit_on_respond:
  assumes "op_at w k (\<lambda>kind tp. coherent tp \<and> as_array tp = False)"
    and "promise_of pf (ops w ! k) = Pending" and "k \<in> set (subscribed w)"
  shows "emitted (step pf w (dt, Respond k a)) =
           emitted w @ [case err a of Some e \<Rightarrow> ErrorEvent e
                        | None \<Rightarrow> Members (first_value (vals a))]"
proof -
  from assms(1,2) obtain kind tp where tp: "k < length (ops w)" "ops w ! k = Call kind tp"
      "coherent tp" "as_array tp = False" "result tp = Pending"
    by (auto simp: op_at_def promise_of_Pending split: operation.splits)
  then show ?thesis using assms(3)
    by (simp add: step_def deliver_op_emitted deliver_callback_result verdict_cases
          split: option.splits)
qed

lemma emit_on_timer:
  assumes "op_at w k (\<lambda>kind tp. coherent tp \<and> timer tp = Some d \<and> created tp = c)"
    and "promise_of pf (ops w ! k) = Pending" and "k \<in> set (subscribed w)"
    and "c + d \<le> clock w + dt"
  shows "emitted (step pf w (dt, TimerFire k)) = emitted w @ [ErrorEvent (Error ''Timeout'')]"
proof -
  from assms(1,2) obtain kind tp where tp: "k < length (ops w)" "ops w ! k = Call kind tp"
      "coherent tp" "timer tp = Some d" "created tp = c" "result tp = Pending"
    by (auto simp: op_at_def promise_of_Pending split: operation.splits)
  then show ?thesis using assms(3,4)
    by (simp add: step_def deliver_op_emitted deliver_timer_result)
qed

lemma no_emit_when_settled:
  assumes "k < length (ops w)" "promise_of pf (ops w ! k) \<noteq> Pending"
  shows "emitted (deliver_op k ev w) = emitted w"
  using assms
  by (cases "ops w ! k") (auto simp: deliver_op_emitted promise_of_Pending)

lemma initial_fetch:
  assumes "membersChangedListener w = None"
  shows "op_at (run pf (startMonitor w) xs) (length (ops w))
           (\<lambda>kind tp. coherent tp \<and> as_array tp = False \<and> timer tp = timeout w
                       \<and> created tp = clock w)"
    and "length (ops w) \<in> set (subscribed (run pf (startMonitor w) xs))"
proof -
  have "op_at (startMonitor w) (length (ops w))
           (\<lambda>kind tp. coherent tp \<and> as_array tp = False \<and> timer tp = timeout w
                       \<and> created tp = clock w)"
    using assms by (simp add: op_at_def startMonitor_fresh coherent_fresh)
  then show "op_at (run pf (startMonitor w) xs) (length (ops w))
           (\<lambda>kind tp. coherent tp \<and> as_array tp = False \<and> timer tp = timeout w
                       \<and> created tp = clock w)"
    by (rule op_at_run) (simp add: coherent_deliver)
  show "length (ops w) \<in> set (subscribed (run pf (startMonitor w) xs))"
    by (rule subscribed_run) (simp add: startMonitor_fresh assms)
qed

lemma op_at_weaken: "op_at w k P \<Longrightarrow> (\<And>kind tp. P kind tp \<Longrightarrow> Q kind tp) \<Longrightarrow> op_at w k Q"
  by (auto simp: op_at_def split: operation.splits)


lemma change_armed:
  assumes "watches w = [r]" "r < length (closures w)" "closures w ! r = Relay"
  shows "change w = relay (w\<lparr>watches := []\<rparr>)"
  using assms by (simp add: change_def invoke_def)

text \<open>
  Claim C1. On an instance with no relay, \<open>startMonitor()\<close> creates the relay, stores
  it, and invokes it once, at once: one \<open>getChildren\<close> call with the relay as watcher,
  one subscription of the relay's handlers, then the state listener. An invocation of
  the relay is a call of \<open>getMembers()\<close> with the relay's handlers chained on its
  promise, and \<open>getMembers()\<close> passes the relay field to \<open>getChildren\<close>, which arms
  it as the watch; when the armed watch is fired by a change, the relay runs and the same
  reference is armed again. Once the field is set to \<open>r\<close> it stays \<open>r\<close>, and every
  \<open>getChildren\<close> call made afterwards, by whatever run, is given \<open>r\<close>. The promise of
  the first invocation, while pending, makes the instance emit \<open>members\<close> with the
  children when the client answers with success, and \<open>error\<close> when it answers with a
  failure or when the timeout runs first; once a promise is settled, further answers and
  timers for it emit nothing.
\<close>

theorem relay_rearms_itself:
  "(membersChangedListener w = None \<longrightarrow>
      membersChangedListener (startMonitor w) = Some (length (closures w))
      \<and> closures (startMonitor w) = closures w @ [Relay, StateListener]
      \<and> calls (startMonitor w)
          = calls w @ [GetChildren (groupPath w) (Some (length (closures w))),
                       On ''state'' (Suc (length (closures w)))]
      \<and> ops (startMonitor w)
          = ops w @ [Call GetMembersOp (timedPromiseByCallback (clock w) [] (timeout w) False)]
      \<and> subscribed (startMonitor w) = subscribed w @ [length (ops w)]
      \<and> watches (startMonitor w) = watches w @ [length (closures w)])
   \<and> relay w = (getMembers w)\<lparr>subscribed := subscribed w @ [length (ops w)]\<rparr>
   \<and> calls (getMembers w) = calls w @ [GetChildren (groupPath w) (membersChangedListener w)]
   \<and> (membersChangedListener w = Some r \<longrightarrow> watches (getMembers w) = watches w @ [r])
   \<and> (membersChangedListener w = Some r \<and> r < length (closures w) \<and> closures w ! r = Relay
        \<and> watches w = [r] \<longrightarrow>
        change w = relay (w\<lparr>watches := []\<rparr>) \<and> watches (change w) = [r])
   \<and> (membersChangedListener w = Some r \<longrightarrow>
        membersChangedListener (run pf w xs) = Some r
        \<and> (\<exists>new. calls (run pf w xs) = calls w @ new
                \<and> (\<forall>p f. GetChildren p f \<in> set new \<longrightarrow> f = Some r)))
   \<and> (membersChangedListener w = None
        \<and> promise_of pf (ops (run pf (startMonitor w) xs) ! length (ops w)) = Pending \<longrightarrow>
        emitted (step pf (run pf (startMonitor w) xs)
                   (dt, Respond (length (ops w)) \<lparr>err = None, vals = vs\<rparr>))
          = emitted (run pf (startMonitor w) xs) @ [Members (first_value vs)]
        \<and> emitted (step pf (run pf (startMonitor w) xs)
                   (dt, Respond (length (ops w)) \<lparr>err = Some e, vals = vs\<rparr>))
          = emitted (run pf (startMonitor w) xs) @ [ErrorEvent e]
        \<and> (timeout w = Some d \<and> clock w + d \<le> clock (run pf (startMonitor w) xs) + dt \<longrightarrow>
             emitted (step pf (run pf (startMonitor w) xs) (dt, TimerFire (length (ops w))))
               = emitted (run pf (startMonitor w) xs) @ [ErrorEvent (Error ''Timeout'')]))
   \<and> (k < length (ops w) \<and> promise_of pf (ops w ! k) \<noteq> Pending \<longrightarrow>
        emitted (step pf w (dt, Respond k a)) = emitted w
        \<and> emitted (step pf w (dt, TimerFire k)) = emitted w)"
proof (intro conjI impI)
  show "relay w = (getMembers w)\<lparr>subscribed := subscribed w @ [length (ops w)]\<rparr>"
    by (simp add: relay_def Let_def)
  show "calls (getMembers w) = calls w @ [GetChildren (groupPath w) (membersChangedListener w)]"
    by simp
next
  assume "membersChangedListener w = Some r"
  then show "watches (getMembers w) = watches w @ [r]" by simp
next
  assume h: "membersChangedListener w = Some r \<and> r < length (closures w)
    \<and> closures w ! r = Relay \<and> watches w = [r]"
  then show c: "change w = relay (w\<lparr>watches := []\<rparr>)" by (simp add: change_armed)
  from h show "watches (change w) = [r]" unfolding c by simp
next
  assume "membersChangedListener w = Some r"
  from rearmed_run[OF this, of pf xs]
  show "membersChangedListener (run pf w xs) = Some r"
    and "\<exists>new. calls (run pf w xs) = calls w @ new
                \<and> (\<forall>p f. GetChildren p f \<in> set new \<longrightarrow> f = Some r)"
    by (simp_all add: rearmed_def)
next
  assume h: "membersChangedListener w = None
        \<and> promise_of pf (ops (run pf (startMonitor w) xs) ! length (ops w)) = Pending"
  then have n: "membersChangedListener w = None"
    and p: "promise_of pf (ops (run pf (startMonitor w) xs) ! length (ops w)) = Pending"
    by simp_all
  note i = initial_fetch[OF n, of pf xs]
  have a: "op_at (run pf (startMonitor w) xs) (length (ops w))
      (\<lambda>kind tp. coherent tp \<and> as_array tp = False)"
    by (rule op_at_weaken[OF i(1)]) simp
  show "emitted (step pf (run pf (startMonitor w) xs)
                   (dt, Respond (length (ops w)) \<lparr>err = None, vals = vs\<rparr>))
          = emitted (run pf (startMonitor w) xs) @ [Members (first_value vs)]"
    using emit_on_respond[OF a p i(2), of dt "\<lparr>err = None, vals = vs\<rparr>"] by simp
  show "emitted (step pf (run pf (startMonitor w) xs)
                   (dt, Respond (length (ops w)) \<lparr>err = Some e, vals = vs\<rparr>))
          = emitted (run pf (startMonitor w) xs) @ [ErrorEvent e]"
    using emit_on_respond[OF a p i(2), of dt "\<lparr>err = Some e, vals = vs\<rparr>"] by simp
  assume t: "timeout w = Some d \<and> clock w + d \<le> clock (run pf (startMonitor w) xs) + dt"
  have b: "op_at (run pf (startMonitor w) xs) (length (ops w))
      (\<lambda>kind tp. coherent tp \<and> timer tp = Some d \<and> created tp = clock w)"
    by (rule op_at_weaken[OF i(1)]) (simp add: t)
  show "emitted (step pf (run pf (startMonitor w) xs) (dt, TimerFire (length (ops w))))
               = emitted (run pf (startMonitor w) xs) @ [ErrorEvent (Error ''Timeout'')]"
    using t by (intro emit_on_timer[OF b p i(2)]) simp
next
  assume "k < length (ops w) \<and> promise_of pf (ops w ! k) \<noteq> Pending"
  then have s: "k < length (ops (w\<lparr>clock := clock w + dt\<rparr>))"
      "promise_of pf (ops (w\<lparr>clock := clock w + dt\<rparr>) ! k) \<noteq> Pending"
    by simp_all
  show "emitted (step pf w (dt, Respond k a)) = emitted w"
    using no_emit_when_settled[OF s, of "Callback a"] by (simp add: step_def)
  show "emitted (step pf w (dt, TimerFire k)) = emitted w"
    using no_emit_when_settled[OF s, of TimerFired] by (simp add: step_def)
qed (simp_all add: startMonitor_fresh)


theorem relay_rearms_itself_witness:
  "membersChangedListener (constructor None (Some 5) None) = None
   \<and> membersChangedListener (startMonitor (constructor None (Some 5) None)) = Some 0
   \<and> calls (startMonitor (constructor None (Some 5) None))
       = [GetChildren ''/groups/default'' (Some 0), On ''state'' 1]
   \<and> 0 < length (closures (startMonitor (constructor None (Some 5) None)))
   \<and> closures (startMonitor (constructor None (Some 5) None)) ! 0 = Relay
   \<and> watches (startMonitor (constructor None (Some 5) None)) = [0]
   \<and> watches (change (startMonitor (constructor None (Some 5) None))) = [0]
   \<and> membersChangedListener (run example_platform (startMonitor (constructor None (Some 5) None))
         [(1, Change), (1, GetMembers), (1, Change)]) = Some 0
   \<and> promise_of example_platform
         (ops (run example_platform (startMonitor (constructor None (Some 5) None)) []) ! 0)
       = Pending
   \<and> emitted (step example_platform
         (run example_platform (startMonitor (constructor None (Some 5) None)) [])
         (1, Respond 0 \<lparr>err = None, vals = [Arr [Str ''node-a'']]\<rparr>))
       = [Members (Arr [Str ''node-a''])]
   \<and> emitted (step example_platform
         (run example_platform (startMonitor (constructor None (Some 5) None)) [])
         (1, Respond 0 \<lparr>err = Some (External ''NO_NODE''), vals = [Arr [Str ''node-a'']]\<rparr>))
       = [ErrorEvent (External ''NO_NODE'')]
   \<and> timeout (constructor None (Some 5) None) = Some 5
   \<and> emitted (step example_platform
         (run example_platform (startMonitor (constructor None (Some 5) None)) [])
         (6, TimerFire 0))
       = [ErrorEvent (Error ''Timeout'')]
   \<and> promise_of example_platform
         (ops (step example_platform (startMonitor (constructor None (Some 5) None))
                 (6, TimerFire 0)) ! 0) \<noteq> Pending
   \<and> emitted (step example_platform
         (step example_platform (startMonitor (constructor None (Some 5) None)) (6, TimerFire 0))
         (1, Respond 0 \<lparr>err = None, vals = [Arr [Str ''node-a'']]\<rparr>))
       = [ErrorEvent (Error ''Timeout'')]"
proof -
  let ?pf = example_platform
  let ?w0 = "constructor None (Some 5) None"
  let ?w1 = "startMonitor ?w0"
  let ?w2 = "step ?pf ?w1 (6, TimerFire 0)"
  let ?ok = "\<lparr>err = None, vals = [Arr [Str ''node-a'']]\<rparr>"
  note T0 = relay_rearms_itself [where w = ?w0 and pf = ?pf and xs = "[]" and dt = 1
      and vs = "[Arr [Str ''node-a'']]" and e = "External ''NO_NODE''" and d = 5]
  note T0' = relay_rearms_itself [where w = ?w0 and pf = ?pf and xs = "[]" and dt = 6
      and d = 5]
  note T1 = relay_rearms_itself [where w = ?w1 and pf = ?pf and r = 0
      and xs = "[(1, Change), (1, GetMembers), (1, Change)]"]
  note T2 = relay_rearms_itself [where w = ?w2 and pf = ?pf and k = 0 and dt = 1 and a = ?ok]
  have w0: "membersChangedListener ?w0 = None" "timeout ?w0 = Some 5" "length (ops ?w0) = 0"
      "length (closures ?w0) = 0" "clock ?w0 = 0" "calls ?w0 = []" "groupPath ?w0 = ''/groups/default''"
    by (simp_all add: constructor_def)
  have w1: "membersChangedListener ?w1 = Some 0" "0 < length (closures ?w1)"
      "closures ?w1 ! 0 = Relay" "watches ?w1 = [0]"
    by (simp_all add: startMonitor_fresh w0) (simp_all add: constructor_def)
  have p: "promise_of ?pf (ops (run ?pf ?w1 []) ! length (ops ?w0)) = Pending"
    by (simp add: startMonitor_fresh w0) (simp add: constructor_def)
  have e0: "emitted (run ?pf ?w1 []) = []" "clock (run ?pf ?w1 []) = 0"
    by (simp_all add: startMonitor_fresh w0) (simp_all add: constructor_def)
  have w2: "0 < length (ops ?w2)" "promise_of ?pf (ops ?w2 ! 0) \<noteq> Pending"
      "emitted ?w2 = [ErrorEvent (Error ''Timeout'')]"
    by (simp_all add: eval_defs)
  from T0 w0(1)
  have a: "membersChangedListener ?w1 = Some (length (closures ?w0))"
      "calls ?w1 = calls ?w0 @ [GetChildren (groupPath ?w0) (Some (length (closures ?w0))),
                                On ''state'' (Suc (length (closures ?w0)))]"
    by blast+
  from T1 w1 have b: "watches (change ?w1) = [0]"
      "membersChangedListener (run ?pf ?w1 [(1, Change), (1, GetMembers), (1, Change)]) = Some 0"
    by blast+
  from T0 w0(1) p
  have c: "emitted (step ?pf (run ?pf ?w1 []) (1, Respond (length (ops ?w0)) ?ok))
             = emitted (run ?pf ?w1 []) @ [Members (first_value [Arr [Str ''node-a'']])]"
      "emitted (step ?pf (run ?pf ?w1 [])
            (1, Respond (length (ops ?w0))
                 \<lparr>err = Some (External ''NO_NODE''), vals = [Arr [Str ''node-a'']]\<rparr>))
             = emitted (run ?pf ?w1 []) @ [ErrorEvent (External ''NO_NODE'')]"
    by blast+
  have due: "clock ?w0 + 5 \<le> clock (run ?pf ?w1 []) + 6" by (simp add: e0 w0)
  from T0' w0(1,2) p due
  have d: "emitted (step ?pf (run ?pf ?w1 []) (6, TimerFire (length (ops ?w0))))
             = emitted (run ?pf ?w1 []) @ [ErrorEvent (Error ''Timeout'')]"
    by blast
  from T2 w2(1,2) have f: "emitted (step ?pf ?w2 (1, Respond 0 ?ok)) = emitted ?w2"
    by blast
  show ?thesis
    using w0(1,2) w1 a b c d f w2(2,3) p
    by (simp add: w0(3,4,6,7) e0 first_value_def)
qed

section \<open>One relay, and the bound on events\<close>

































end
